theory Spec2Isabelle
  imports Main "HOL-Library.Word"
begin

section \<open>Values of the host language\<close>

text \<open>
  The module \<^verbatim>\<open>src/media-segment-request.js\<close> works on plain JavaScript objects. Numbers
  that the code reads through \<^verbatim>\<open>x || 0\<close> or adds to with \<^verbatim>\<open>+=\<close> are kept as
  \<open>js_num\<close>, so that a missing property (\<^verbatim>\<open>undefined\<close>) and \<^verbatim>\<open>NaN\<close> stay visible.
\<close>

type_synonym byte = "8 word"

datatype js_num = Undefined | NaN | Infinity | Num int

datatype js_error = TypeError | RangeError

text \<open>\<^verbatim>\<open>x || 0\<close>: the falsy numbers are \<^verbatim>\<open>undefined\<close>, \<^verbatim>\<open>NaN\<close> and \<^verbatim>\<open>0\<close>.\<close>

fun or0 :: "js_num \<Rightarrow> js_num" where
  "or0 Undefined = Num 0"
| "or0 NaN = Num 0"
| "or0 Infinity = Infinity"
| "or0 (Num n) = Num n"

fun truthy :: "js_num \<Rightarrow> bool" where
  "truthy Undefined = False"
| "truthy NaN = False"
| "truthy Infinity = True"
| "truthy (Num n) = (n \<noteq> 0)"

text \<open>\<^verbatim>\<open>a + b\<close> on these numbers; anything added to \<^verbatim>\<open>undefined\<close> or \<^verbatim>\<open>NaN\<close> is \<^verbatim>\<open>NaN\<close>.\<close>

fun js_add :: "js_num \<Rightarrow> js_num \<Rightarrow> js_num" where
  "js_add (Num a) (Num b) = Num (a + b)"
| "js_add Infinity (Num b) = Infinity"
| "js_add (Num a) Infinity = Infinity"
| "js_add Infinity Infinity = Infinity"
| "js_add _ _ = NaN"

text \<open>
  \<^verbatim>\<open>s.substring(start)\<close>: \<^verbatim>\<open>start\<close> is clamped to \<open>[0, length s]\<close>, and \<^verbatim>\<open>NaN\<close>
  counts as \<open>0\<close>.
\<close>

fun substring :: "'a list \<Rightarrow> js_num \<Rightarrow> 'a list" where
  "substring s (Num n) = drop (nat n) s"
| "substring s Infinity = []"
| "substring s _ = s"

section \<open>Requests and error records\<close>

text \<open>
  The request object the transport hands to every callback. \<^verbatim>\<open>mediaSegmentRequest\<close>
  issues the key request and the init-segment request with \<^verbatim>\<open>responseType: 'arraybuffer'\<close>
  and the media-segment request with \<^verbatim>\<open>responseType: 'text'\<close>. \<open>response\<close> is the
  \<^verbatim>\<open>ArrayBuffer\<close> that \<^verbatim>\<open>request.response\<close> holds on a request of the first kind. On a
  request of type \<^verbatim>\<open>'text'\<close> \<^verbatim>\<open>request.response\<close> is the text itself, the same string as
  \<^verbatim>\<open>request.responseText\<close>: \<open>responseText\<close> holds it, one UTF-16 code unit for each byte
  of the body, and no handler of such a request reads \<open>response\<close>. \<open>requestTime\<close> is
  the time stamp the transport sets, when it has set one.
\<close>

record request =
  status :: int
  uri :: string
  timedout :: bool
  aborted :: bool
  response :: "byte list"
  responseText :: "16 word list"
  bandwidth :: js_num
  bytesReceived :: js_num
  roundTripTime :: js_num
  requestTime :: "int option"

record error_rec =
  err_status :: int
  message :: string
  code :: int
  xhr :: request

definition FAILURE :: int where "FAILURE = 2"
definition TIMEOUT :: int where "TIMEOUT = - 101"
definition ABORTED :: int where "ABORTED = - 102"

text \<open>\<^verbatim>\<open>handleErrors(error, request)\<close>; \<open>None\<close> is the \<^verbatim>\<open>null\<close> it returns.\<close>

definition handleErrors :: "bool \<Rightarrow> request \<Rightarrow> error_rec option" where
  "handleErrors error request =
     (if timedout request then
        Some \<lparr>err_status = status request,
              message = ''HLS request timed-out at URL: '' @ uri request,
              code = TIMEOUT, xhr = request\<rparr>
      else if aborted request then
        Some \<lparr>err_status = status request,
              message = ''HLS request aborted at URL: '' @ uri request,
              code = ABORTED, xhr = request\<rparr>
      else if error then
        Some \<lparr>err_status = status request,
              message = ''HLS request errored at URL: '' @ uri request,
              code = FAILURE, xhr = request\<rparr>
      else None)"

text \<open>
  \<^verbatim>\<open>getMostImportantError\<close>: \<^verbatim>\<open>errors.reduce\<close> without an initial value starts from the
  first element and raises \<^verbatim>\<open>TypeError\<close> on an empty array.
\<close>

definition getMostImportantError :: "error_rec list \<Rightarrow> js_error + error_rec" where
  "getMostImportantError errs =
     (case errs of
        [] \<Rightarrow> Inl TypeError
      | e # es \<Rightarrow> Inr (foldl (\<lambda>prev err. if code err > code prev then err else prev) e es))"

section \<open>The segment descriptor\<close>

text \<open>
  \<^verbatim>\<open>byterangeStr\<close> prints two numbers in decimal. The end of the range is
  \<^verbatim>\<open>offset + length - 1\<close>, which is negative for an empty range at offset 0. Byte
  offsets and lengths are integers below \<open>2 ^ 53\<close>, where the sum is exact and the number
  prints with all its digits.
\<close>

record byterange =
  offset :: int
  length_br :: int

fun decimal :: "nat \<Rightarrow> string" where
  "decimal n = (if 10 \<le> n then decimal (n div 10) else []) @ [''0123456789'' ! (n mod 10)]"

definition numberToString :: "int \<Rightarrow> string" where
  "numberToString i = (if 0 \<le> i then decimal (nat i) else CHR ''-'' # decimal (nat (- i)))"

definition byterangeStr :: "byterange \<Rightarrow> string" where
  "byterangeStr br =
     (let byterangeEnd = offset br + length_br br - 1;
          byterangeStart = offset br
      in ''bytes='' @ numberToString byterangeStart @ ''-'' @ numberToString byterangeEnd)"

text \<open>\<^verbatim>\<open>segmentXhrHeaders\<close>: the \<^verbatim>\<open>Range\<close> header, when the object has a byte range.\<close>

definition segmentXhrHeaders :: "byterange option \<Rightarrow> string option" where
  "segmentXhrHeaders br = (case br of None \<Rightarrow> None | Some r \<Rightarrow> Some (byterangeStr r))"

text \<open>
  A \<^verbatim>\<open>Uint8Array\<close> is a view of \<open>u8_length\<close> bytes at \<open>u8_byteOffset\<close> of a buffer.
  \<^verbatim>\<open>new Uint8Array(buffer)\<close> views the whole buffer; with an offset and a length it
  raises \<^verbatim>\<open>RangeError\<close> when the view does not fit. A buffer that was transferred to
  the worker is detached: its views have length 0.
\<close>

record uint8array =
  buffer :: "byte list"
  u8_byteOffset :: nat
  u8_length :: nat

definition Uint8Array :: "byte list \<Rightarrow> uint8array" where
  "Uint8Array ab = \<lparr>buffer = ab, u8_byteOffset = 0, u8_length = length ab\<rparr>"

definition Uint8ArrayView :: "byte list \<Rightarrow> nat \<Rightarrow> nat \<Rightarrow> js_error + uint8array" where
  "Uint8ArrayView ab off len =
     (if off + len \<le> length ab then Inr \<lparr>buffer = ab, u8_byteOffset = off, u8_length = len\<rparr>
      else Inl RangeError)"

definition contents :: "uint8array \<Rightarrow> byte list" where
  "contents a = take (u8_length a) (drop (u8_byteOffset a) (buffer a))"

definition detached :: uint8array where
  "detached = \<lparr>buffer = [], u8_byteOffset = 0, u8_length = 0\<rparr>"

record key_rec =
  key_resolvedUri :: string
  key_bytes :: "32 word list option"
  key_iv :: "32 word list"

record map_rec =
  map_resolvedUri :: string
  map_byterange :: "byterange option"
  map_bytes :: "uint8array option"

record seg_stats =
  st_bandwidth :: js_num
  st_bytesReceived :: js_num
  st_roundTripTime :: js_num
  st_firstBytesReceivedAt :: js_num

text \<open>
  The descriptor \<^verbatim>\<open>segment\<close>. \<open>map_info\<close> is the property \<^verbatim>\<open>segment.map\<close>; \<open>'b\<close> is the
  state of the fragmented-MP4 box parser kept in \<^verbatim>\<open>segment.boxes\<close>. An optional
  property that is absent is \<open>None\<close>; a typed array is truthy even when it is empty, so
  \<open>Some []\<close> passes every \<^verbatim>\<open>if (segment.x)\<close> test.
\<close>

record 'b segment =
  resolvedUri :: string
  seg_byterange :: "byterange option"
  requestId :: nat
  transmuxer :: nat
  key :: "key_rec option"
  map_info :: "map_rec option"
  lastReachedChar :: js_num
  stats :: "seg_stats option"
  bytes :: "uint8array option"
  encryptedBytes :: "uint8array option"
  boxes :: "'b option"
  trackInfo :: "string option"
  endOfAllRequests :: "int option"

section \<open>Collaborators and observable calls\<close>

text \<open>
  The result of \<^verbatim>\<open>boxParsers.inspectMp4\<close> and the parser itself. The parser is a
  parameter \<open>P\<close> of every definition that reaches it: it receives \<^verbatim>\<open>data\<close>,
  \<^verbatim>\<open>isEndOfSegment\<close> and \<^verbatim>\<open>boxes\<close>.
\<close>

record 'b mp4_result =
  res_bytes :: "byte list option"
  res_boxes :: "'b option"
  numUsedBytes :: int

type_synonym 'b parser = "uint8array option \<Rightarrow> bool \<Rightarrow> 'b option \<Rightarrow> 'b mp4_result"

record transmux_result =
  audioTimingInfo :: "(int \<times> int) option"
  videoTimingInfo :: "(int \<times> int) option"
  tr_data :: "byte list"

datatype chunk = Mp4Chunk "byte list" | TsChunk transmux_result

record progress_event =
  target :: request
  loaded :: nat

datatype req_kind = KeyRequest | InitSegmentRequest | SegmentRequest

text \<open>The message posted to the decryption worker, and the worker's reply.\<close>

record dec_message =
  msg_source :: nat
  msg_encrypted :: uint8array
  msg_key :: "32 word list"
  msg_iv :: "32 word list"

record dec_reply =
  source :: nat
  decrypted_bytes :: "byte list"
  byteOffset :: nat
  byteLength :: nat

text \<open>
  Every call that leaves the module is recorded, in order: \<^verbatim>\<open>xhr.abort()\<close>, the caller's
  \<^verbatim>\<open>doneFn\<close>, \<^verbatim>\<open>dataFn\<close> and \<^verbatim>\<open>progressFn\<close> (with the descriptor as it is at the
  call), the call of the box parser (\<^verbatim>\<open>data\<close>, \<^verbatim>\<open>isEndOfSegment\<close>), the call of
  \<^verbatim>\<open>transmux\<close> (the buffer \<^verbatim>\<open>bytes.buffer\<close>, \<^verbatim>\<open>isPartial\<close>, and whether a \<^verbatim>\<open>doneFn\<close>
  was handed on),
  the three calls on the decryption worker, and an exception that ends the handler.
\<close>

datatype 'b action =
    XhrAbort req_kind
  | DoneFn "error_rec option" "'b segment" "transmux_result option"
  | DataFn "'b segment" chunk
  | ProgressFn progress_event "'b segment"
  | CallInspectMp4 "uint8array option" bool
  | CallTransmux "byte list" bool bool
  | AddEventListener nat
  | RemoveEventListener nat
  | PostMessage dec_message
  | Throw js_error

text \<open>
  The shared worker channel: the registered \<^verbatim>\<open>message\<close> listeners, each named by the
  request id of the segment whose \<^verbatim>\<open>decryptionHandler\<close> it is, and the messages posted.
\<close>

record decrypter =
  listeners :: "nat list"
  posted :: "dec_message list"

section \<open>Statistics\<close>

definition getRequestStats :: "request \<Rightarrow> seg_stats" where
  "getRequestStats request =
     \<lparr>st_bandwidth = bandwidth request,
      st_bytesReceived = or0 (bytesReceived request),
      st_roundTripTime = or0 (roundTripTime request),
      st_firstBytesReceivedAt = Undefined\<rparr>"

text \<open>
  The numbers of the host language are IEEE 754 doubles: a quotient and a product are
  rounded to the nearest number with a significand of 53 bits, ties to the even one.
  \<open>bits n\<close> is the length of \<open>n\<close> in binary. \<open>roundToDouble a b\<close> is the double nearest
  to the quotient \<open>a / b\<close> of two positive integers, returned as a fraction: the
  quotient is scaled by a power of two \<open>2 ^ e\<close> into the interval from \<open>2 ^ 52\<close> to
  \<open>2 ^ 53\<close>, rounded to an integer there, and scaled back. \<open>timesDouble x k\<close> is the
  rounded product of such a fraction with a positive integer. The two integers are
  doubles themselves (byte counts and differences of time stamps in milliseconds, below
  \<open>2 ^ 53\<close>), so that their quotient is far from both ends of the range of the normal
  doubles, where the rounding would differ (below \<open>2 ^ - 1022\<close> and from \<open>2 ^ 1024\<close> on).
\<close>

fun bits :: "nat \<Rightarrow> nat" where
  "bits n = (if n = 0 then 0 else Suc (bits (n div 2)))"

declare bits.simps [simp del]

definition scaled :: "nat \<Rightarrow> nat \<Rightarrow> int \<Rightarrow> nat \<times> nat" where
  "scaled a b e = (if 0 \<le> e then (a, b * 2 ^ nat e) else (a * 2 ^ nat (- e), b))"

definition nearest :: "nat \<Rightarrow> nat \<Rightarrow> nat" where
  "nearest n d =
     (let q = n div d;
          r = n mod d
      in if 2 * r < d then q else if d < 2 * r then q + 1
         else if even q then q else q + 1)"

definition roundToDouble :: "nat \<Rightarrow> nat \<Rightarrow> nat \<times> nat" where
  "roundToDouble a b =
     (let k = int (bits a) - int (bits b) - 53;
          e = (if 2 ^ 53 \<le> fst (scaled a b k) div snd (scaled a b k) then k + 1 else k);
          m = nearest (fst (scaled a b e)) (snd (scaled a b e))
      in if 0 \<le> e then (m * 2 ^ nat e, 1) else (m, 2 ^ nat (- e)))"

definition timesDouble :: "nat \<times> nat \<Rightarrow> nat \<Rightarrow> nat \<times> nat" where
  "timesDouble x k = roundToDouble (fst x * k) (snd x)"

text \<open>
  \<^verbatim>\<open>Math.floor((bytesReceived / roundTripTime) * 8 * 1000)\<close>, evaluated from the left as
  the source writes it: the quotient is rounded, then the product with 8 (which is
  exact), then the product with 1000, and the floor is taken last. Division by zero
  gives \<^verbatim>\<open>Infinity\<close>, or \<^verbatim>\<open>NaN\<close> for \<^verbatim>\<open>0 / 0\<close>; a negative round-trip time gives a
  negative bandwidth.
\<close>

definition floorDouble :: "int \<Rightarrow> nat \<times> nat \<Rightarrow> int" where
  "floorDouble sign x = (sign * int (fst x)) div int (snd x)"

fun floorBandwidth :: "nat \<Rightarrow> js_num \<Rightarrow> js_num" where
  "floorBandwidth b (Num r) =
     (if r = 0 then (if b = 0 then NaN else Infinity)
      else if b = 0 then Num 0
      else Num (floorDouble (sgn r)
                  (timesDouble (timesDouble (roundToDouble b (nat \<bar>r\<bar>)) 8) 1000)))"
| "floorBandwidth b Infinity = Num 0"
| "floorBandwidth b _ = NaN"

text \<open>\<^verbatim>\<open>getProgressStats\<close>; \<open>now\<close> is what \<^verbatim>\<open>Date.now()\<close> returns.\<close>

definition getProgressStats :: "int \<Rightarrow> progress_event \<Rightarrow> seg_stats" where
  "getProgressStats now progressEvent =
     (let request = target progressEvent;
          roundTripTime = (case requestTime request of Some t \<Rightarrow> Num (now - t) | None \<Rightarrow> NaN);
          rtt = or0 roundTripTime
      in \<lparr>st_bandwidth = floorBandwidth (loaded progressEvent) rtt,
          st_bytesReceived = Num (int (loaded progressEvent)),
          st_roundTripTime = rtt,
          st_firstBytesReceivedAt = Undefined\<rparr>)"

text \<open>
  \<^verbatim>\<open>videojs.mergeOptions(segment.stats, progressStats)\<close>: the three properties of the
  progress statistics replace the old ones, every other property of the old object stays.
\<close>

definition mergeStats :: "seg_stats option \<Rightarrow> seg_stats \<Rightarrow> seg_stats" where
  "mergeStats old new =
     (case old of
        None \<Rightarrow> new
      | Some s \<Rightarrow> new\<lparr>st_firstBytesReceivedAt := st_firstBytesReceivedAt s\<rparr>)"

section \<open>Response handlers\<close>

text \<open>
  \<^verbatim>\<open>DataView.getUint32(k)\<close> reads four bytes big-endian and raises \<^verbatim>\<open>RangeError\<close>
  outside the buffer.
\<close>

definition getUint32 :: "byte list \<Rightarrow> nat \<Rightarrow> js_error + 32 word" where
  "getUint32 view k =
     (if k + 4 \<le> length view
      then Inr (of_nat (foldl (\<lambda>acc b. acc * 256 + unat b) 0 (take 4 (drop k view))))
      else Inl RangeError)"

text \<open>
  Modelled from the spec: \<^verbatim>\<open>stringToArrayBuffer\<close> of \<^verbatim>\<open>util/string-to-array-buffer\<close>, which
  is not among the sources. The text of the media request holds one character for each
  byte of the body (``extracts the new bytes since the descriptor's last-reached
  cursor''); the buffer keeps the low eight bits of every character.
\<close>

definition stringToArrayBuffer :: "16 word list \<Rightarrow> byte list" where
  "stringToArrayBuffer s = map ucast s"

text \<open>
  A response handler ends by calling \<^verbatim>\<open>finishProcessingFn(errorObj, segment)\<close>: the model
  returns the two arguments of that call, the descriptor as the handler leaves it. A
  handler that raises instead returns the exception.
\<close>

definition handleKeyResponse ::
  "'b segment \<Rightarrow> bool \<Rightarrow> request \<Rightarrow> js_error + (error_rec option \<times> 'b segment)" where
  "handleKeyResponse segment error request =
     (let response = response request;
          errorObj = handleErrors error request
      in if errorObj \<noteq> None then Inr (errorObj, segment)
         else if length response \<noteq> 16 then
           Inr (Some \<lparr>err_status = status request,
                       message = ''Invalid HLS key at URL: '' @ uri request,
                       code = FAILURE, xhr = request\<rparr>, segment)
         else
           (case (getUint32 response 0, getUint32 response 4,
                  getUint32 response 8, getUint32 response 12) of
              (Inr w0, Inr w4, Inr w8, Inr w12) \<Rightarrow>
                (case key segment of
                   None \<Rightarrow> Inl TypeError
                 | Some k \<Rightarrow>
                     Inr (None, segment\<lparr>key := Some (k\<lparr>key_bytes := Some [w0, w4, w8, w12]\<rparr>)\<rparr>))
            | _ \<Rightarrow> Inl RangeError))"

definition handleInitSegmentResponse ::
  "'b segment \<Rightarrow> bool \<Rightarrow> request \<Rightarrow> js_error + (error_rec option \<times> 'b segment)" where
  "handleInitSegmentResponse segment error request =
     (let response = response request;
          errorObj = handleErrors error request
      in if errorObj \<noteq> None then Inr (errorObj, segment)
         else if length response = 0 then
           Inr (Some \<lparr>err_status = status request,
                       message = ''Empty HLS segment content at URL: '' @ uri request,
                       code = FAILURE, xhr = request\<rparr>, segment)
         else
           (case map_info segment of
              None \<Rightarrow> Inl TypeError
            | Some m \<Rightarrow>
                Inr (None,
                     segment\<lparr>map_info := Some (m\<lparr>map_bytes := Some (Uint8Array response)\<rparr>)\<rparr>)))"

text \<open>
  \<^verbatim>\<open>handleSegmentResponse\<close> is the callback of the media-segment request, whose
  \<^verbatim>\<open>request.response\<close> is a string. A string has no property \<^verbatim>\<open>byteLength\<close>: reading
  it gives \<^verbatim>\<open>undefined\<close>, which the test \<^verbatim>\<open>response.byteLength === 0\<close> compares with 0.
\<close>

definition byteLength_of_text :: "16 word list \<Rightarrow> js_num" where
  "byteLength_of_text s = Undefined"

definition handleSegmentResponse ::
  "'b segment \<Rightarrow> bool \<Rightarrow> request \<Rightarrow> error_rec option \<times> 'b segment" where
  "handleSegmentResponse segment error request =
     (let response = responseText request;
          errorObj = handleErrors error request
      in if errorObj \<noteq> None then (errorObj, segment)
         else
           (let newBytes = stringToArrayBuffer
                  (substring (responseText request) (or0 (lastReachedChar segment)))
            in if byteLength_of_text response = Num 0 then
                 (Some \<lparr>err_status = status request,
                         message = ''Empty HLS segment content at URL: '' @ uri request,
                         code = FAILURE, xhr = request\<rparr>, segment)
               else
                 (let segment = segment\<lparr>stats := Some (getRequestStats request)\<rparr>
                  in if key segment \<noteq> None
                     then (None, segment\<lparr>encryptedBytes := Some (Uint8Array newBytes)\<rparr>)
                     else (None, segment\<lparr>bytes := Some (Uint8Array newBytes)\<rparr>))))"

section \<open>The parse dispatcher\<close>

text \<open>
  \<^verbatim>\<open>parseMp4AndNotify\<close> returns \<^verbatim>\<open>result.numUsedBytes\<close>; the model returns it with the
  descriptor and the calls made. \<^verbatim>\<open>dataFn\<close> is called before \<^verbatim>\<open>segment.boxes\<close> is written.
\<close>

definition parseMp4AndNotify ::
  "'b parser \<Rightarrow> 'b segment \<Rightarrow> uint8array option \<Rightarrow> bool \<Rightarrow> int \<times> 'b segment \<times> 'b action list" where
  "parseMp4AndNotify P segment bytes' isPartial =
     (let result = P bytes' (\<not> isPartial) (boxes segment);
          notify = (case res_bytes result of
                      None \<Rightarrow> []
                    | Some bs \<Rightarrow> if length bs \<noteq> 0 then [DataFn segment (Mp4Chunk bs)] else [])
      in (numUsedBytes result, segment\<lparr>boxes := res_boxes result\<rparr>,
          CallInspectMp4 bytes' (\<not> isPartial) # notify))"

text \<open>
  \<^verbatim>\<open>transmuxAndNotify\<close> hands \<^verbatim>\<open>bytes.buffer\<close> to \<^verbatim>\<open>transmux\<close>, which raises when
  \<^verbatim>\<open>bytes\<close> is undefined. The three callbacks it passes are the next three definitions;
  the transmuxer calls them later. \<open>doneFn\<close> tells whether a \<^verbatim>\<open>doneFn\<close> was supplied.
\<close>

definition transmuxAndNotify :: "uint8array option \<Rightarrow> bool \<Rightarrow> bool \<Rightarrow> 'b action list" where
  "transmuxAndNotify bytes' isPartial doneFn =
     (case bytes' of
        None \<Rightarrow> [Throw TypeError]
      | Some b \<Rightarrow> [CallTransmux (buffer b) isPartial doneFn])"

definition onData :: "'b segment \<Rightarrow> transmux_result \<Rightarrow> 'b action list" where
  "onData segment result = [DataFn segment (TsChunk result)]"

definition onTrackInfo :: "'b segment \<Rightarrow> string \<Rightarrow> 'b segment" where
  "onTrackInfo segment ti = segment\<lparr>trackInfo := Some ti\<rparr>"

definition onDone :: "bool \<Rightarrow> 'b segment \<Rightarrow> transmux_result \<Rightarrow> 'b action list" where
  "onDone doneFn segment result =
     (if audioTimingInfo result = None \<and> videoTimingInfo result = None then []
      else if \<not> doneFn then []
      else [DoneFn None segment (Some result)])"

text \<open>
  \<^verbatim>\<open>handleDecryptedBytes\<close>: the box parser when the descriptor has \<^verbatim>\<open>segment.map\<close>, the
  transmuxer otherwise, where the whole \<^verbatim>\<open>bytes.byteLength\<close> is reported as handled.
  With \<^verbatim>\<open>bytes\<close> undefined the transmuxer branch raises and returns nothing; the count
  0 of the model stands for that.
\<close>

definition handleDecryptedBytes ::
  "'b parser \<Rightarrow> 'b segment \<Rightarrow> uint8array option \<Rightarrow> bool \<Rightarrow> bool \<Rightarrow>
     int \<times> 'b segment \<times> 'b action list" where
  "handleDecryptedBytes P segment bytes' isPartial doneFn =
     (if map_info segment \<noteq> None then parseMp4AndNotify P segment bytes' isPartial
      else
        (case bytes' of
           None \<Rightarrow> (0, segment, transmuxAndNotify bytes' isPartial doneFn)
         | Some b \<Rightarrow> (int (u8_length b), segment, transmuxAndNotify bytes' isPartial doneFn)))"

section \<open>The progress handler\<close>

definition handleProgress ::
  "'b parser \<Rightarrow> int \<Rightarrow> 'b segment \<Rightarrow> progress_event \<Rightarrow> 'b segment \<times> 'b action list" where
  "handleProgress P now segment event =
     (let request = target event;
          (segment, acts) =
            (if key segment = None \<and>
                (case map_info segment of None \<Rightarrow> True | Some m \<Rightarrow> map_bytes m \<noteq> None)
             then
               (let newBytes = stringToArrayBuffer
                      (substring (responseText request) (or0 (lastReachedChar segment)));
                    (handledBytes, segment, acts) =
                      handleDecryptedBytes P segment (Some (Uint8Array newBytes)) True False
                in (segment\<lparr>lastReachedChar :=
                      js_add (lastReachedChar segment) (Num handledBytes)\<rparr>, acts))
             else (segment, []));
          st = mergeStats (stats segment) (getProgressStats now event);
          st = (if \<not> truthy (st_firstBytesReceivedAt st) \<and> truthy (st_bytesReceived st)
                then st\<lparr>st_firstBytesReceivedAt := Num now\<rparr> else st);
          segment = segment\<lparr>stats := Some st\<rparr>
      in (segment, acts @ [ProgressFn event segment]))"

section \<open>Decryption\<close>

text \<open>
  \<^verbatim>\<open>decryptSegment\<close> registers \<^verbatim>\<open>decryptionHandler\<close> and posts the encrypted bytes, the
  key and the IV, transferring the buffers of the first two. Reading \<^verbatim>\<open>segment.key.bytes\<close>
  or \<^verbatim>\<open>segment.encryptedBytes.buffer\<close> of an absent property raises after the listener
  was added.

  Modelled from the spec: \<^verbatim>\<open>createTransferableMessage\<close> of \<^verbatim>\<open>bin-utils\<close>, which is not
  among the sources. The message is ``a correlation identifier, the encrypted buffer,
  the key, and the IV'', sent with ``buffer-transfer semantics'': the model posts the
  four values and leaves the two transferred views detached on the descriptor.
\<close>

definition decryptSegment ::
  "decrypter \<Rightarrow> 'b segment \<Rightarrow> decrypter \<times> 'b segment \<times> 'b action list" where
  "decryptSegment decrypter segment =
     (let decrypter = decrypter\<lparr>listeners := listeners decrypter @ [requestId segment]\<rparr>
      in case (encryptedBytes segment, key segment) of
           (Some enc, Some k) \<Rightarrow>
             (case key_bytes k of
                None \<Rightarrow> (decrypter, segment, [AddEventListener (requestId segment), Throw TypeError])
              | Some kb \<Rightarrow>
                  (let msg = \<lparr>msg_source = requestId segment, msg_encrypted = enc,
                              msg_key = kb, msg_iv = key_iv k\<rparr>
                   in (decrypter\<lparr>posted := posted decrypter @ [msg]\<rparr>,
                       segment\<lparr>encryptedBytes := Some detached,
                               key := Some (k\<lparr>key_bytes := Some []\<rparr>)\<rparr>,
                       [AddEventListener (requestId segment), PostMessage msg])))
         | _ \<Rightarrow> (decrypter, segment, [AddEventListener (requestId segment), Throw TypeError]))"

text \<open>\<^verbatim>\<open>decryptionHandler\<close>, the listener that \<^verbatim>\<open>decryptSegment\<close> registers.\<close>

definition decryptionHandler ::
  "'b parser \<Rightarrow> decrypter \<Rightarrow> 'b segment \<Rightarrow> dec_reply \<Rightarrow>
     decrypter \<times> 'b segment \<times> 'b action list" where
  "decryptionHandler P decrypter segment event =
     (if source event = requestId segment then
        (let rid = requestId segment;
             decrypter = decrypter\<lparr>listeners := remove1 rid (listeners decrypter)\<rparr>
         in case Uint8ArrayView (decrypted_bytes event) (byteOffset event) (byteLength event) of
              Inl ex \<Rightarrow> (decrypter, segment, [RemoveEventListener rid, Throw ex])
            | Inr view \<Rightarrow>
                (let segment = segment\<lparr>bytes := Some view\<rparr>;
                     (n, segment, acts) =
                       handleDecryptedBytes P segment (bytes segment) False True
                 in (decrypter, segment, RemoveEventListener rid # acts)))
      else (decrypter, segment, []))"

section \<open>The completion tracker\<close>

definition abortAll :: "req_kind list \<Rightarrow> 'b action list" where
  "abortAll activeXhrs = map XhrAbort activeXhrs"

record tracker =
  errors :: "error_rec list"
  count :: nat

text \<open>
  The closure that \<^verbatim>\<open>waitForCompletion\<close> returns, with its two variables \<^verbatim>\<open>errors\<close> and
  \<^verbatim>\<open>count\<close> and the worker passed as state. \<open>activeXhrs\<close> names each tracked request by
  its kind.
\<close>

definition waitForCompletion ::
  "'b parser \<Rightarrow> req_kind list \<Rightarrow> int \<Rightarrow> tracker \<times> decrypter \<Rightarrow> error_rec option \<Rightarrow> 'b segment \<Rightarrow>
     tracker \<times> decrypter \<times> 'b segment \<times> 'b action list" where
  "waitForCompletion P activeXhrs now st error segment =
     (let (tr, decrypter) = st;
          aborts = (case error of None \<Rightarrow> [] | Some e \<Rightarrow> abortAll activeXhrs);
          errs = (case error of None \<Rightarrow> errors tr | Some e \<Rightarrow> errors tr @ [e]);
          tr = \<lparr>errors = errs, count = count tr + 1\<rparr>
      in if count tr = length activeXhrs then
           (let segment = segment\<lparr>endOfAllRequests := Some now\<rparr>
            in if length errs > 0 then
                 (case getMostImportantError errs of
                    Inl ex \<Rightarrow> (tr, decrypter, segment, aborts @ [Throw ex])
                  | Inr worstError \<Rightarrow>
                      (tr, decrypter, segment, aborts @ [DoneFn (Some worstError) segment None]))
               else if encryptedBytes segment \<noteq> None then
                 (let (decrypter, segment, acts) = decryptSegment decrypter segment
                  in (tr, decrypter, segment, aborts @ acts))
               else
                 (let (n, segment, acts) =
                        handleDecryptedBytes P segment (bytes segment) False True
                  in (tr, decrypter, segment, aborts @ acts)))
         else (tr, decrypter, segment, aborts))"

section \<open>The entry point and the events of one invocation\<close>

record xhr_options =
  opt_uri :: string
  opt_responseType :: string
  opt_range :: "string option"

text \<open>
  \<^verbatim>\<open>mediaSegmentRequest\<close> issues up to three requests, in this order; the model returns
  them with the options that the function sets on top of the caller's \<^verbatim>\<open>xhrOptions\<close>.
  \<^verbatim>\<open>activeXhrs\<close> is the list of their handles.
\<close>

definition mediaSegmentRequest :: "'b segment \<Rightarrow> (req_kind \<times> xhr_options) list" where
  "mediaSegmentRequest segment =
     (case key segment of
        None \<Rightarrow> []
      | Some k \<Rightarrow>
          [(KeyRequest, \<lparr>opt_uri = key_resolvedUri k, opt_responseType = ''arraybuffer'',
                         opt_range = None\<rparr>)]) @
     (case map_info segment of
        None \<Rightarrow> []
      | Some m \<Rightarrow>
          if map_bytes m = None
          then [(InitSegmentRequest,
                 \<lparr>opt_uri = map_resolvedUri m, opt_responseType = ''arraybuffer'',
                  opt_range = segmentXhrHeaders (map_byterange m)\<rparr>)]
          else []) @
     [(SegmentRequest, \<lparr>opt_uri = resolvedUri segment, opt_responseType = ''text'',
                        opt_range = segmentXhrHeaders (seg_byterange segment)\<rparr>)]"

definition activeXhrs_of :: "'b segment \<Rightarrow> req_kind list" where
  "activeXhrs_of segment = map fst (mediaSegmentRequest segment)"

text \<open>
  What can happen after the requests were issued: the transport calls back one of the
  three response handlers, it reports progress of the media request, or the worker
  channel delivers a reply. The state is the descriptor, the tracker's variables, the
  worker channel and the calls made so far.
\<close>

datatype event =
    KeyResponse bool request
  | InitSegmentResponse bool request
  | SegmentResponse bool request
  | Progress progress_event
  | WorkerMessage dec_reply

record 'b pstate =
  p_segment :: "'b segment"
  p_tracker :: tracker
  p_decrypter :: decrypter
  p_trace :: "'b action list"

definition finish ::
  "'b parser \<Rightarrow> req_kind list \<Rightarrow> int \<Rightarrow> 'b pstate \<Rightarrow>
     js_error + (error_rec option \<times> 'b segment) \<Rightarrow> 'b pstate" where
  "finish P activeXhrs now s r =
     (case r of
        Inl ex \<Rightarrow> s\<lparr>p_trace := p_trace s @ [Throw ex]\<rparr>
      | Inr (errorObj, segment) \<Rightarrow>
          (let (tr, d, segment, acts) =
                 waitForCompletion P activeXhrs now (p_tracker s, p_decrypter s) errorObj segment
           in \<lparr>p_segment = segment, p_tracker = tr, p_decrypter = d,
               p_trace = p_trace s @ acts\<rparr>))"

definition step :: "'b parser \<Rightarrow> req_kind list \<Rightarrow> 'b pstate \<Rightarrow> int \<times> event \<Rightarrow> 'b pstate" where
  "step P activeXhrs s te =
     (let (now, ev) = te in
      case ev of
        KeyResponse error request \<Rightarrow>
          finish P activeXhrs now s (handleKeyResponse (p_segment s) error request)
      | InitSegmentResponse error request \<Rightarrow>
          finish P activeXhrs now s (handleInitSegmentResponse (p_segment s) error request)
      | SegmentResponse error request \<Rightarrow>
          finish P activeXhrs now s (Inr (handleSegmentResponse (p_segment s) error request))
      | Progress pe \<Rightarrow>
          (let (segment, acts) = handleProgress P now (p_segment s) pe
           in s\<lparr>p_segment := segment, p_trace := p_trace s @ acts\<rparr>)
      | WorkerMessage reply \<Rightarrow>
          if requestId (p_segment s) \<in> set (listeners (p_decrypter s)) then
            (let (d, segment, acts) = decryptionHandler P (p_decrypter s) (p_segment s) reply
             in s\<lparr>p_segment := segment, p_decrypter := d, p_trace := p_trace s @ acts\<rparr>)
          else s)"

definition run :: "'b parser \<Rightarrow> req_kind list \<Rightarrow> 'b pstate \<Rightarrow> (int \<times> event) list \<Rightarrow> 'b pstate" where
  "run P activeXhrs s evs = foldl (step P activeXhrs) s evs"

definition start :: "'b segment \<Rightarrow> decrypter \<Rightarrow> 'b pstate" where
  "start segment d =
     \<lparr>p_segment = segment, p_tracker = \<lparr>errors = [], count = 0\<rparr>, p_decrypter = d, p_trace = []\<rparr>"

section \<open>The second copy of the module\<close>

text \<open>
  The sources hold a second, unnamed copy of the module, an earlier state of it. The two
  differ in \<^verbatim>\<open>parseMp4AndNotify\<close>, where the copy still parses the boxes inline, and in
  \<^verbatim>\<open>handleProgress\<close>, where the copy tests \<^verbatim>\<open>!segment.key\<close> only, under the comment
  ``don't support encrypted segments or fmp4 for now''; the response handlers, the
  tracker, the decryption client and the transmuxer path are the same text in both.
  \<open>handleProgress_copy\<close> is the copy's progress handler, over the copy's own dispatcher
  \<open>D\<close>.
\<close>

definition handleProgress_copy ::
  "('b segment \<Rightarrow> uint8array option \<Rightarrow> bool \<Rightarrow> bool \<Rightarrow> int \<times> 'b segment \<times> 'b action list) \<Rightarrow>
     int \<Rightarrow> 'b segment \<Rightarrow> progress_event \<Rightarrow> 'b segment \<times> 'b action list" where
  "handleProgress_copy D now segment event =
     (let request = target event;
          (segment, acts) =
            (if key segment = None
             then
               (let newBytes = stringToArrayBuffer
                      (substring (responseText request) (or0 (lastReachedChar segment)));
                    (decryptedBytes, segment, acts) =
                      D segment (Some (Uint8Array newBytes)) True False
                in (segment\<lparr>lastReachedChar :=
                      js_add (lastReachedChar segment) (Num decryptedBytes)\<rparr>, acts))
             else (segment, []));
          st = mergeStats (stats segment) (getProgressStats now event);
          st = (if \<not> truthy (st_firstBytesReceivedAt st) \<and> truthy (st_bytesReceived st)
                then st\<lparr>st_firstBytesReceivedAt := Num now\<rparr> else st);
          segment = segment\<lparr>stats := Some st\<rparr>
      in (segment, acts @ [ProgressFn event segment]))"

section \<open>Reading the recorded calls\<close>

text \<open>
  The calls by which the three branches of the hand-off show: the report of an error to
  \<^verbatim>\<open>doneFn\<close>, the registration of the decryption listener, and a call of the parse
  dispatcher's collaborator with \<^verbatim>\<open>isPartial = false\<close> (the box parser is called with
  \<^verbatim>\<open>isEndOfSegment = !isPartial\<close>).
\<close>

fun is_abort :: "'b action \<Rightarrow> bool" where
  "is_abort (XhrAbort x) = True"
| "is_abort _ = False"

fun is_error_report :: "'b action \<Rightarrow> bool" where
  "is_error_report (DoneFn (Some e) s r) = True"
| "is_error_report _ = False"

fun is_listener_added :: "'b action \<Rightarrow> bool" where
  "is_listener_added (AddEventListener i) = True"
| "is_listener_added _ = False"

fun is_dispatch :: "bool \<Rightarrow> 'b action \<Rightarrow> bool" where
  "is_dispatch isPartial (CallInspectMp4 b isEndOfSegment) = (isEndOfSegment = (\<not> isPartial))"
| "is_dispatch isPartial (CallTransmux b p d) = (p = isPartial)"
| "is_dispatch isPartial _ = False"

text \<open>
  The transport calls the tracker once for every request that ends: \<open>callbacks\<close> runs the
  closure on the arguments of these calls, in their order, and returns for each call the
  descriptor it leaves and the calls it made.
\<close>

fun callbacks ::
  "'b parser \<Rightarrow> req_kind list \<Rightarrow> tracker \<times> decrypter \<Rightarrow> (int \<times> error_rec option \<times> 'b segment) list \<Rightarrow>
     ('b segment \<times> 'b action list) list" where
  "callbacks P activeXhrs st [] = []"
| "callbacks P activeXhrs st ((now, error, segment) # cs) =
     (case waitForCompletion P activeXhrs now st error segment of
        (tr, d, s, acts) \<Rightarrow> (s, acts) # callbacks P activeXhrs (tr, d) cs)"

text \<open>The errors among the arguments of a list of calls, in order.\<close>

fun errors_of :: "(int \<times> error_rec option \<times> 'b segment) list \<Rightarrow> error_rec list" where
  "errors_of [] = []"
| "errors_of ((now, None, segment) # cs) = errors_of cs"
| "errors_of ((now, Some e, segment) # cs) = e # errors_of cs"

text \<open>
  How often each branch of the hand-off shows in a list of calls: error reports,
  listener registrations, calls of the dispatcher's collaborator with
  \<^verbatim>\<open>isPartial = false\<close>.
\<close>

definition paths :: "'b action list \<Rightarrow> nat \<times> nat \<times> nat" where
  "paths acts =
     (length (filter is_error_report acts), length (filter is_listener_added acts),
      length (filter (is_dispatch False) acts))"

text \<open>
  The partial calls of the dispatcher along a run. \<open>dispatchesProgress\<close> is the test
  under which \<^verbatim>\<open>handleProgress\<close> calls the dispatcher and \<open>progressBytes\<close> the buffer it
  then supplies; \<open>partialCalls\<close> lists, for every progress event of the run that
  dispatches, the number of bytes supplied and the number that the dispatcher reports
  as handled. \<open>longestText\<close> is the length of the longest response text that a progress
  event of the run has shown.
\<close>

definition dispatchesProgress :: "'b segment \<Rightarrow> bool" where
  "dispatchesProgress segment =
     (key segment = None \<and>
      (case map_info segment of None \<Rightarrow> True | Some m \<Rightarrow> map_bytes m \<noteq> None))"

definition progressBytes :: "'b segment \<Rightarrow> progress_event \<Rightarrow> uint8array" where
  "progressBytes segment event =
     Uint8Array (stringToArrayBuffer
       (substring (responseText (target event)) (or0 (lastReachedChar segment))))"

fun partialCalls ::
  "'b parser \<Rightarrow> req_kind list \<Rightarrow> 'b pstate \<Rightarrow> (int \<times> event) list \<Rightarrow> (nat \<times> int) list" where
  "partialCalls P xs s [] = []"
| "partialCalls P xs s ((t, Progress pe) # evs) =
     (if dispatchesProgress (p_segment s)
      then [(u8_length (progressBytes (p_segment s) pe),
             fst (handleDecryptedBytes P (p_segment s)
                    (Some (progressBytes (p_segment s) pe)) True False))]
      else []) @
     partialCalls P xs (step P xs s (t, Progress pe)) evs"
| "partialCalls P xs s (e # evs) = partialCalls P xs (step P xs s e) evs"

fun longestText :: "(int \<times> event) list \<Rightarrow> nat" where
  "longestText [] = 0"
| "longestText ((t, Progress pe) # evs) =
     max (length (responseText (target pe))) (longestText evs)"
| "longestText (e # evs) = longestText evs"

section \<open>Concrete inputs\<close>

definition example_request :: request where
  "example_request =
     \<lparr>status = 200, uri = ''seg.ts'', timedout = False, aborted = False,
      response = [], responseText = [1, 2, 3],
      bandwidth = Undefined, bytesReceived = Num 3, roundTripTime = Num 10,
      requestTime = Some 0\<rparr>"

definition example_error :: "bool \<Rightarrow> bool \<Rightarrow> error_rec" where
  "example_error t a = the (handleErrors True (example_request\<lparr>timedout := t, aborted := a\<rparr>))"

definition example_segment :: "nat segment" where
  "example_segment =
     \<lparr>resolvedUri = ''seg.ts'', seg_byterange = None, requestId = 7, transmuxer = 0,
      key = None, map_info = None, lastReachedChar = Num 0, stats = None, bytes = None,
      encryptedBytes = None, boxes = None, trackInfo = None, endOfAllRequests = None\<rparr>"

definition example_key :: key_rec where
  "example_key = \<lparr>key_resolvedUri = ''key.bin'', key_bytes = None, key_iv = [0, 0, 0, 1]\<rparr>"

definition example_map :: map_rec where
  "example_map = \<lparr>map_resolvedUri = ''init.mp4'', map_byterange = None, map_bytes = None\<rparr>"

definition key_response :: request where
  "key_response =
     example_request\<lparr>uri := ''key.bin'',
       response := [0, 0, 0, 1, 0, 0, 1, 0, 0, 1, 0, 0, 1, 0, 0, 0], responseText := []\<rparr>"

definition init_response :: request where
  "init_response = key_response\<lparr>uri := ''init.mp4'', response := [0, 0, 0, 8]\<rparr>"

definition example_parser :: "nat parser" where
  "example_parser data' isEndOfSegment bx =
     (case data' of
        None \<Rightarrow> \<lparr>res_bytes = None, res_boxes = bx, numUsedBytes = 0\<rparr>
      | Some a \<Rightarrow>
          (let n = (if isEndOfSegment then u8_length a else 8 * (u8_length a div 8))
           in \<lparr>res_bytes = Some (take n (contents a)),
               res_boxes = Some (case bx of None \<Rightarrow> n | Some m \<Rightarrow> m + n),
               numUsedBytes = int n\<rparr>))"

definition example_decrypter :: decrypter where
  "example_decrypter = \<lparr>listeners = [], posted = []\<rparr>"

definition encrypted_segment :: "nat segment" where
  "encrypted_segment =
     example_segment\<lparr>key := Some (example_key\<lparr>key_bytes := Some [1, 256, 65536, 16777216]\<rparr>),
       encryptedBytes := Some (Uint8Array [1, 2, 3])\<rparr>"

definition clear_segment :: "nat segment" where
  "clear_segment = example_segment\<lparr>bytes := Some (Uint8Array [1, 2, 3])\<rparr>"

definition full_segment :: "nat segment" where
  "full_segment = example_segment\<lparr>key := Some example_key, map_info := Some example_map\<rparr>"

definition other_reply :: dec_reply where
  "other_reply = \<lparr>source = 8, decrypted_bytes = [5, 5], byteOffset = 0, byteLength = 2\<rparr>"

definition matching_reply :: dec_reply where
  "matching_reply = \<lparr>source = 7, decrypted_bytes = [9, 8, 7, 6], byteOffset = 1, byteLength = 2\<rparr>"

definition decrypting_state :: "nat pstate" where
  "decrypting_state =
     \<lparr>p_segment = fst (snd (decryptSegment example_decrypter encrypted_segment)),
      p_tracker = \<lparr>errors = [], count = 2\<rparr>,
      p_decrypter = fst (decryptSegment example_decrypter encrypted_segment),
      p_trace = []\<rparr>"

definition pending_segment :: "nat segment" where
  "pending_segment = example_segment\<lparr>map_info := Some example_map\<rparr>"

definition example_progress :: progress_event where
  "example_progress = \<lparr>target = example_request\<lparr>responseText := [1, 2]\<rparr>, loaded = 2\<rparr>"

definition fetched_segment :: "nat segment" where
  "fetched_segment =
     example_segment\<lparr>map_info := Some (example_map\<lparr>map_bytes := Some (Uint8Array [0, 0, 0, 8])\<rparr>)\<rparr>"

definition progress9 :: progress_event where
  "progress9 =
     \<lparr>target = example_request\<lparr>responseText := [1, 2, 3, 4, 5, 6, 7, 8, 9]\<rparr>, loaded = 9\<rparr>"

definition response10 :: request where
  "response10 = example_request\<lparr>responseText := [1, 2, 3, 4, 5, 6, 7, 8, 9, 10]\<rparr>"


definition empty_response :: request where
  "empty_response = example_request\<lparr>responseText := []\<rparr>"
section \<open>Evaluating the rounded arithmetic\<close>

lemma bits_0 [simp]: "bits 0 = 0"
  by (simp add: bits.simps)

lemma bits_pos [simp]: "0 < n \<Longrightarrow> bits n = Suc (bits (n div 2))"
  by (subst bits.simps) simp

lemmas double_defs =
  roundToDouble_def timesDouble_def floorDouble_def nearest_def scaled_def Let_def

lemma floorBandwidth_example:
  "floorBandwidth 323 (Num 5) = Num 516799"
  "floorBandwidth 2 (Num 1) = Num 16000"
  "floorBandwidth 1 (Num (- 3)) = Num (- 2667)"
  "floorBandwidth 0 (Num 0) = NaN"
  "floorBandwidth 3 (Num 0) = Infinity"
  by (simp_all add: double_defs)

section \<open>The range header\<close>

lemma byterangeStr_example:
  "byterangeStr \<lparr>offset = 500, length_br = 1000\<rparr> = ''bytes=500-1499''"
  by (simp add: byterangeStr_def numberToString_def)

lemma mediaSegmentRequest_example:
  "map fst (mediaSegmentRequest full_segment) = [KeyRequest, InitSegmentRequest, SegmentRequest]"
  "map fst (mediaSegmentRequest example_segment) = [SegmentRequest]"
  by (simp_all add: mediaSegmentRequest_def full_segment_def example_segment_def
        example_key_def example_map_def)

section \<open>The most important error\<close>

lemma reduce_first_max:
  "\<exists>i<length (e # es).
      foldl (\<lambda>prev err. if code err > code prev then err else prev) e es = (e # es) ! i \<and>
      (\<forall>j<length (e # es). code ((e # es) ! j) \<le> code ((e # es) ! i)) \<and>
      (\<forall>j<i. code ((e # es) ! j) < code ((e # es) ! i))"
proof (induction es rule: rev_induct)
  case Nil
  show ?case by simp
next
  case (snoc x xs)
  let ?f = "\<lambda>prev err. if code err > code prev then err else prev"
  from snoc obtain i where i: "i < length (e # xs)"
    and r: "foldl ?f e xs = (e # xs) ! i"
    and mx: "\<forall>j<length (e # xs). code ((e # xs) ! j) \<le> code ((e # xs) ! i)"
    and fst: "\<forall>j<i. code ((e # xs) ! j) < code ((e # xs) ! i)"
    by blast
  have app: "e # xs @ [x] = (e # xs) @ [x]" by simp
  show ?case
  proof (cases "code x > code ((e # xs) ! i)")
    case True
    let ?k = "length (e # xs)"
    have k: "(e # xs @ [x]) ! ?k = x"
      unfolding app by (simp only: nth_append_length)
    have old: "\<And>j. j < ?k \<Longrightarrow> (e # xs @ [x]) ! j = (e # xs) ! j"
      unfolding app by (simp only: nth_append if_True)
    have "foldl ?f e (xs @ [x]) = x" using True r by simp
    moreover have "\<forall>j<length (e # xs @ [x]). code ((e # xs @ [x]) ! j) \<le> code x"
    proof (intro allI impI)
      fix j assume "j < length (e # xs @ [x])"
      then consider "j < ?k" | "j = ?k" by fastforce
      then show "code ((e # xs @ [x]) ! j) \<le> code x"
      proof cases
        case 1
        with mx True old show ?thesis by fastforce
      next
        case 2
        with k show ?thesis by simp
      qed
    qed
    moreover have "\<forall>j<?k. code ((e # xs @ [x]) ! j) < code x"
      using mx True old by fastforce
    ultimately show ?thesis
      using k by (intro exI [of _ ?k]) simp
  next
    case False
    have old: "\<And>j. j < length (e # xs) \<Longrightarrow> (e # xs @ [x]) ! j = (e # xs) ! j"
      unfolding app by (simp only: nth_append if_True)
    have "foldl ?f e (xs @ [x]) = (e # xs) ! i" using False r by simp
    moreover have "\<forall>j<length (e # xs @ [x]). code ((e # xs @ [x]) ! j) \<le> code ((e # xs) ! i)"
    proof (intro allI impI)
      fix j assume "j < length (e # xs @ [x])"
      then consider "j < length (e # xs)" | "j = length (e # xs)" by fastforce
      then show "code ((e # xs @ [x]) ! j) \<le> code ((e # xs) ! i)"
      proof cases
        case 1
        with mx old show ?thesis by fastforce
      next
        case 2
        have "(e # xs @ [x]) ! j = x"
          unfolding app 2 by (simp only: nth_append_length)
        with False show ?thesis by simp
      qed
    qed
    moreover have "\<forall>j<i. code ((e # xs @ [x]) ! j) < code ((e # xs) ! i)"
      using fst old i by fastforce
    ultimately show ?thesis
      using i old [OF i] by (intro exI [of _ i]) simp
  qed
qed

text \<open>
  Claim C2. For every non-empty list of accumulated error records,
  \<^verbatim>\<open>getMostImportantError\<close> returns the first-seen error whose code is maximal: no
  error of the list has a greater code and every earlier one has a smaller code. A
  Failure (2) with two Aborted (-102) resolves to the Failure, a Timeout (-101) with two
  Aborted resolves to the Timeout, wherever it stands in the list, and of two errors
  with the same code the earlier one is returned.
\<close>

theorem getMostImportantError_first_maximal:
  "(errs \<noteq> [] \<longrightarrow>
      (\<exists>i<length errs.
          getMostImportantError errs = Inr (errs ! i) \<and>
          (\<forall>j<length errs. code (errs ! j) \<le> code (errs ! i)) \<and>
          (\<forall>j<i. code (errs ! j) < code (errs ! i)))) \<and>
   (code f = FAILURE \<and> code a1 = ABORTED \<and> code a2 = ABORTED \<longrightarrow>
      getMostImportantError [f, a1, a2] = Inr f \<and>
      getMostImportantError [a1, f, a2] = Inr f \<and>
      getMostImportantError [a1, a2, f] = Inr f) \<and>
   (code t = TIMEOUT \<and> code b1 = ABORTED \<and> code b2 = ABORTED \<longrightarrow>
      getMostImportantError [t, b1, b2] = Inr t \<and>
      getMostImportantError [b1, t, b2] = Inr t \<and>
      getMostImportantError [b1, b2, t] = Inr t) \<and>
   (code e1 = code e2 \<longrightarrow> getMostImportantError [e1, e2] = Inr e1)"
proof (intro conjI impI)
  assume ne: "errs \<noteq> []"
  then obtain e es where errs: "errs = e # es" by (cases errs) auto
  let ?f = "\<lambda>prev err. if code err > code prev then err else prev"
  from reduce_first_max [of e es] obtain i where i: "i < length (e # es)"
    and r: "foldl ?f e es = (e # es) ! i"
    and mx: "\<forall>j<length (e # es). code ((e # es) ! j) \<le> code ((e # es) ! i)"
    and fs: "\<forall>j<i. code ((e # es) ! j) < code ((e # es) ! i)"
    by blast
  have g: "getMostImportantError (e # es) = Inr ((e # es) ! i)"
    unfolding getMostImportantError_def using r by simp
  show "\<exists>i<length errs. getMostImportantError errs = Inr (errs ! i) \<and>
        (\<forall>j<length errs. code (errs ! j) \<le> code (errs ! i)) \<and>
        (\<forall>j<i. code (errs ! j) < code (errs ! i))"
    unfolding errs using i g mx fs by (intro exI [of _ i] conjI)
qed (simp_all add: getMostImportantError_def FAILURE_def ABORTED_def TIMEOUT_def)

theorem getMostImportantError_first_maximal_witness:
  "getMostImportantError
     [example_error False True, example_error True False, example_error False True]
   = Inr (example_error True False) \<and>
   getMostImportantError
     [example_error False True, example_error False True, example_error False False]
   = Inr (example_error False False) \<and>
   getMostImportantError [example_error False False, example_error False False]
   = Inr (example_error False False) \<and>
   (\<exists>i. getMostImportantError
             [example_error False True, example_error True False, example_error False True]
           = Inr ([example_error False True, example_error True False,
                   example_error False True] ! i))"
proof -
  let ?A = "example_error False True"
  let ?T = "example_error True False"
  let ?F = "example_error False False"
  have cA: "code ?A = ABORTED" and cT: "code ?T = TIMEOUT" and cF: "code ?F = FAILURE"
    by (simp_all add: example_error_def handleErrors_def example_request_def)
  note th = getMostImportantError_first_maximal
    [of "[?A, ?T, ?A]" ?F ?A ?A ?T ?A ?A ?F ?F]
  have 1: "getMostImportantError [?A, ?T, ?A] = Inr ?T"
    using th [THEN conjunct2, THEN conjunct2, THEN conjunct1] cA cT by simp
  have 2: "getMostImportantError [?A, ?A, ?F] = Inr ?F"
    using th [THEN conjunct2, THEN conjunct1] cA cF by simp
  have 3: "getMostImportantError [?F, ?F] = Inr ?F"
    using th [THEN conjunct2, THEN conjunct2, THEN conjunct2] by simp
  have 4: "\<exists>i. getMostImportantError [?A, ?T, ?A] = Inr ([?A, ?T, ?A] ! i)"
    using th [THEN conjunct1] by blast
  from 1 2 3 4 show ?thesis by (intro conjI)
qed

section \<open>The media-segment response\<close>

text \<open>
  What \<^verbatim>\<open>handleSegmentResponse\<close> does with a response that comes without a time-out, an
  abort or a transport error, whatever its body: it forwards a null error and has
  populated exactly one of \<^verbatim>\<open>bytes\<close> and \<^verbatim>\<open>encryptedBytes\<close> with the new bytes since the
  cursor, \<^verbatim>\<open>encryptedBytes\<close> if and only if the descriptor has a key, \<^verbatim>\<open>bytes\<close>
  otherwise. The other field stays as it was, so that on a descriptor with neither field
  set exactly one is set afterwards. The error of the branch under the comment ``stop
  processing if received empty content'' is never forwarded: the handler forwards an
  error only when \<^verbatim>\<open>handleErrors\<close> has made one.
\<close>

lemma handleSegmentResponse_populates_one:
  "handleErrors error request = None \<longrightarrow>
      (\<exists>s. handleSegmentResponse segment error request = (None, s) \<and>
           (key segment \<noteq> None \<longrightarrow>
              encryptedBytes s = Some (Uint8Array (stringToArrayBuffer
                  (substring (responseText request) (or0 (lastReachedChar segment))))) \<and>
              bytes s = bytes segment) \<and>
           (key segment = None \<longrightarrow>
              bytes s = Some (Uint8Array (stringToArrayBuffer
                  (substring (responseText request) (or0 (lastReachedChar segment))))) \<and>
              encryptedBytes s = encryptedBytes segment) \<and>
           (bytes segment = None \<and> encryptedBytes segment = None \<longrightarrow>
              (encryptedBytes s \<noteq> None) = (key segment \<noteq> None) \<and>
              (bytes s \<noteq> None) = (key segment = None)))"
  by (auto simp add: handleSegmentResponse_def byteLength_of_text_def Let_def)

lemma handleSegmentResponse_error_from_handleErrors:
  "fst (handleSegmentResponse segment error request) = handleErrors error request"
  by (simp add: handleSegmentResponse_def byteLength_of_text_def Let_def)

lemma handleSegmentResponse_example:
  "bytes (snd (handleSegmentResponse example_segment False example_request)) =
     Some (Uint8Array [1, 2, 3])"
  "encryptedBytes (snd (handleSegmentResponse example_segment False example_request)) = None"
  "encryptedBytes (snd (handleSegmentResponse (example_segment\<lparr>key := Some example_key\<rparr>)
       False example_request)) = Some (Uint8Array [1, 2, 3])"
  "bytes (snd (handleSegmentResponse (example_segment\<lparr>key := Some example_key\<rparr>)
       False example_request)) = None"
  by (simp_all add: handleSegmentResponse_def byteLength_of_text_def handleErrors_def
        stringToArrayBuffer_def example_request_def example_segment_def)

text \<open>
  Claim C5. After the media-segment response handler completes successfully (no transport
  error, non-empty body) exactly one of \<^verbatim>\<open>bytes\<close> and \<^verbatim>\<open>encryptedBytes\<close> has been
  populated, \<^verbatim>\<open>encryptedBytes\<close> if and only if the descriptor has a key; a successful
  response of byte length 0 instead produces an error with the Failure code and populates
  neither field. The first half is \<open>handleSegmentResponse_populates_one\<close>. The second half
  is what the handler attempts under its comment ``stop processing if received empty
  content'' and misses: the media request is of type \<^verbatim>\<open>'text'\<close>, its
  \<^verbatim>\<open>request.response\<close> is a string, and \<^verbatim>\<open>response.byteLength === 0\<close> is never true.
  On a successful response with an empty body the handler forwards a null error and sets
  \<^verbatim>\<open>bytes\<close> to an array of length 0 and the statistics; when the request is the only
  one of the segment, the tracker then hands the empty array to the transmuxer and
  \<^verbatim>\<open>doneFn\<close> receives no error.
\<close>

theorem handleSegmentResponse_empty_body:
  "handleErrors False empty_response = None \<and>
   responseText empty_response = [] \<and>
   handleSegmentResponse example_segment False empty_response =
     (None, example_segment\<lparr>stats := Some (getRequestStats empty_response),
                             bytes := Some (Uint8Array [])\<rparr>) \<and>
   activeXhrs_of example_segment = [SegmentRequest] \<and>
   p_trace (step example_parser [SegmentRequest] (start example_segment example_decrypter)
              (5, SegmentResponse False empty_response)) =
     [CallTransmux [] False True]"
  by (simp add: handleSegmentResponse_def byteLength_of_text_def handleErrors_def
        stringToArrayBuffer_def empty_response_def example_request_def example_segment_def
        activeXhrs_of_def mediaSegmentRequest_def step_def finish_def start_def
        waitForCompletion_def handleDecryptedBytes_def transmuxAndNotify_def Uint8Array_def
        example_decrypter_def Let_def)

section \<open>The key response\<close>

lemma take4_drop:
  assumes "k + 4 \<le> length v"
  shows "take 4 (drop k v) = [v ! k, v ! (k + 1), v ! (k + 2), v ! (k + 3)]"
proof -
  have "length (take 4 (drop k v)) = 4" using assms by simp
  moreover have "\<And>i. i < 4 \<Longrightarrow> take 4 (drop k v) ! i = v ! (k + i)"
    using assms by simp
  ultimately show ?thesis
    by (intro nth_equalityI) (auto simp: nth_Cons' less_Suc_eq numeral_eq_Suc)
qed

lemma byte_bound: "unat (b :: byte) < 256"
  using unsigned_less [of b, where 'a = nat] by simp

lemma getUint32_value:
  assumes "k + 4 \<le> length v" and "k1 = k + 1" and "k2 = k + 2" and "k3 = k + 3"
  shows "\<exists>w. getUint32 v k = Inr w \<and>
           unat w = unat (v ! k) * 16777216 + unat (v ! k1) * 65536 +
                    unat (v ! k2) * 256 + unat (v ! k3)"
proof -
  define n where "n = unat (v ! k) * 16777216 + unat (v ! (k + 1)) * 65536 +
            unat (v ! (k + 2)) * 256 + unat (v ! (k + 3))"
  have f: "foldl (\<lambda>acc b. acc * 256 + unat b) 0 (take 4 (drop k v)) = n"
    by (simp add: take4_drop [OF assms(1)] n_def)
  have "n < 4294967296"
    using byte_bound [of "v ! k"] byte_bound [of "v ! (k + 1)"]
      byte_bound [of "v ! (k + 2)"] byte_bound [of "v ! (k + 3)"]
    unfolding n_def by linarith
  then have "unat (of_nat n :: 32 word) = n"
    by (simp add: unat_of_nat)
  with f assms show ?thesis by (simp add: getUint32_def n_def)
qed

text \<open>
  Claim C6, as stated, fails: a key response that the transport reports as timed out is
  forwarded with the Timeout code although its body is not 16 bytes long, and a 16-byte
  body that arrives with a transport error stores no key and forwards a Failure.
\<close>

theorem handleKeyResponse_body_length_counterexample:
  "length (response (key_response\<lparr>response := [], timedout := True\<rparr>)) \<noteq> 16 \<and>
   handleKeyResponse (example_segment\<lparr>key := Some example_key\<rparr>) False
       (key_response\<lparr>response := [], timedout := True\<rparr>) =
     Inr (Some \<lparr>err_status = 200, message = ''HLS request timed-out at URL: key.bin'',
                 code = - 101, xhr = key_response\<lparr>response := [], timedout := True\<rparr>\<rparr>,
          example_segment\<lparr>key := Some example_key\<rparr>) \<and>
   FAILURE \<noteq> - 101 \<and>
   length (response key_response) = 16 \<and>
   handleKeyResponse (example_segment\<lparr>key := Some example_key\<rparr>) True key_response =
     Inr (Some \<lparr>err_status = 200, message = ''HLS request errored at URL: key.bin'',
                 code = 2, xhr = key_response\<rparr>,
          example_segment\<lparr>key := Some example_key\<rparr>)"
  by (simp add: handleKeyResponse_def handleErrors_def key_response_def example_request_def
        FAILURE_def TIMEOUT_def)

text \<open>
  Claim C6, amended. For every key response that the transport delivers without a
  time-out, an abort or an error: if the body is exactly 16 bytes, the handler stores on
  the key sub-record exactly four 32-bit words, the big-endian values of the bytes at
  offsets 0, 4, 8 and 12 in that order, and forwards a null error; if the body has any
  other length, it forwards an error with the Failure code and the descriptor, the key
  bytes with it, is unchanged. A response with a time-out, an abort or a transport error
  is forwarded with the error that \<^verbatim>\<open>handleErrors\<close> makes of it, whose code is Timeout,
  Aborted or Failure in this order of precedence, whatever the length of its body, and
  the descriptor is forwarded unchanged: nothing is stored.
\<close>

theorem handleKeyResponse_validates_length:
  "(handleErrors error request = None \<longrightarrow>
     (length (response request) = 16 \<and> key segment = Some k \<longrightarrow>
        (\<exists>w0 w4 w8 w12.
           handleKeyResponse segment error request =
             Inr (None, segment\<lparr>key := Some (k\<lparr>key_bytes := Some [w0, w4, w8, w12]\<rparr>)\<rparr>) \<and>
           unat w0 = unat (response request ! 0) * 16777216 + unat (response request ! 1) * 65536 +
                     unat (response request ! 2) * 256 + unat (response request ! 3) \<and>
           unat w4 = unat (response request ! 4) * 16777216 + unat (response request ! 5) * 65536 +
                     unat (response request ! 6) * 256 + unat (response request ! 7) \<and>
           unat w8 = unat (response request ! 8) * 16777216 + unat (response request ! 9) * 65536 +
                     unat (response request ! 10) * 256 + unat (response request ! 11) \<and>
           unat w12 = unat (response request ! 12) * 16777216 + unat (response request ! 13) * 65536 +
                      unat (response request ! 14) * 256 + unat (response request ! 15))) \<and>
     (length (response request) \<noteq> 16 \<longrightarrow>
        (\<exists>e. handleKeyResponse segment error request = Inr (Some e, segment) \<and>
             code e = FAILURE))) \<and>
   (timedout request \<or> aborted request \<or> error \<longrightarrow>
      (\<exists>e. handleErrors error request = Some e \<and>
           handleKeyResponse segment error request = Inr (Some e, segment) \<and>
           code e = (if timedout request then TIMEOUT
                     else if aborted request then ABORTED else FAILURE)))"
proof (intro impI conjI)
  assume ok: "handleErrors error request = None"
    and "length (response request) = 16 \<and> key segment = Some k"
  then have len: "length (response request) = 16" and k: "key segment = Some k" by simp_all
  let ?r = "response request"
  from len getUint32_value [of 0 ?r 1 2 3] obtain w0 where w0: "getUint32 ?r 0 = Inr w0"
    "unat w0 = unat (?r ! 0) * 16777216 + unat (?r ! 1) * 65536 + unat (?r ! 2) * 256 + unat (?r ! 3)"
    by auto
  from len getUint32_value [of 4 ?r 5 6 7] obtain w4 where w4: "getUint32 ?r 4 = Inr w4"
    "unat w4 = unat (?r ! 4) * 16777216 + unat (?r ! 5) * 65536 + unat (?r ! 6) * 256 + unat (?r ! 7)"
    by auto
  from len getUint32_value [of 8 ?r 9 10 11] obtain w8 where w8: "getUint32 ?r 8 = Inr w8"
    "unat w8 = unat (?r ! 8) * 16777216 + unat (?r ! 9) * 65536 + unat (?r ! 10) * 256 + unat (?r ! 11)"
    by auto
  from len getUint32_value [of 12 ?r 13 14 15] obtain w12 where w12: "getUint32 ?r 12 = Inr w12"
    "unat w12 = unat (?r ! 12) * 16777216 + unat (?r ! 13) * 65536 + unat (?r ! 14) * 256 + unat (?r ! 15)"
    by auto
  have "handleKeyResponse segment error request =
          Inr (None, segment\<lparr>key := Some (k\<lparr>key_bytes := Some [w0, w4, w8, w12]\<rparr>)\<rparr>)"
    unfolding handleKeyResponse_def using ok len k w0(1) w4(1) w8(1) w12(1) by simp
  with w0(2) w4(2) w8(2) w12(2) show "\<exists>w0 w4 w8 w12.
           handleKeyResponse segment error request =
             Inr (None, segment\<lparr>key := Some (k\<lparr>key_bytes := Some [w0, w4, w8, w12]\<rparr>)\<rparr>) \<and>
           unat w0 = unat (?r ! 0) * 16777216 + unat (?r ! 1) * 65536 +
                     unat (?r ! 2) * 256 + unat (?r ! 3) \<and>
           unat w4 = unat (?r ! 4) * 16777216 + unat (?r ! 5) * 65536 +
                     unat (?r ! 6) * 256 + unat (?r ! 7) \<and>
           unat w8 = unat (?r ! 8) * 16777216 + unat (?r ! 9) * 65536 +
                     unat (?r ! 10) * 256 + unat (?r ! 11) \<and>
           unat w12 = unat (?r ! 12) * 16777216 + unat (?r ! 13) * 65536 +
                      unat (?r ! 14) * 256 + unat (?r ! 15)"
    by blast
next
  assume "handleErrors error request = None" and "length (response request) \<noteq> 16"
  then show "\<exists>e. handleKeyResponse segment error request = Inr (Some e, segment) \<and>
             code e = FAILURE"
    by (simp add: handleKeyResponse_def)
next
  assume "timedout request \<or> aborted request \<or> error"
  then show "\<exists>e. handleErrors error request = Some e \<and>
           handleKeyResponse segment error request = Inr (Some e, segment) \<and>
           code e = (if timedout request then TIMEOUT
                     else if aborted request then ABORTED else FAILURE)"
    by (auto simp add: handleKeyResponse_def handleErrors_def)
qed

theorem handleKeyResponse_validates_length_witness:
  "handleErrors False key_response = None \<and> length (response key_response) = 16 \<and>
   handleKeyResponse (example_segment\<lparr>key := Some example_key\<rparr>) False key_response =
     Inr (None, example_segment\<lparr>key := Some (example_key\<lparr>key_bytes := Some [1, 256, 65536, 16777216]\<rparr>)\<rparr>) \<and>
   (\<exists>e. handleKeyResponse (example_segment\<lparr>key := Some example_key\<rparr>) False
           (key_response\<lparr>response := [1, 2, 3]\<rparr>) =
         Inr (Some e, example_segment\<lparr>key := Some example_key\<rparr>) \<and> code e = FAILURE) \<and>
   (\<exists>e. handleKeyResponse (example_segment\<lparr>key := Some example_key\<rparr>) True
           (key_response\<lparr>aborted := True\<rparr>) =
         Inr (Some e, example_segment\<lparr>key := Some example_key\<rparr>) \<and> code e = - 102)"
proof -
  have ok: "handleErrors False key_response = None"
    and ok3: "handleErrors False (key_response\<lparr>response := [1, 2, 3]\<rparr>) = None"
    by (simp_all add: handleErrors_def key_response_def example_request_def)
  have len: "length (response key_response) = 16"
    and len3: "length (response (key_response\<lparr>response := [1, 2, 3]\<rparr>)) \<noteq> 16"
    by (simp_all add: key_response_def)
  have k: "key (example_segment\<lparr>key := Some example_key\<rparr>) = Some example_key" by simp
  have "\<exists>w0 w4 w8 w12.
    handleKeyResponse (example_segment\<lparr>key := Some example_key\<rparr>) False key_response =
       Inr (None, example_segment\<lparr>key := Some (example_key\<lparr>key_bytes := Some [w0, w4, w8, w12]\<rparr>)\<rparr>) \<and>
    unat w0 = unat (response key_response ! 0) * 16777216 +
                unat (response key_response ! 1) * 65536 +
                unat (response key_response ! 2) * 256 + unat (response key_response ! 3) \<and>
    unat w4 = unat (response key_response ! 4) * 16777216 +
                unat (response key_response ! 5) * 65536 +
                unat (response key_response ! 6) * 256 + unat (response key_response ! 7) \<and>
    unat w8 = unat (response key_response ! 8) * 16777216 +
                unat (response key_response ! 9) * 65536 +
                unat (response key_response ! 10) * 256 + unat (response key_response ! 11) \<and>
    unat w12 = unat (response key_response ! 12) * 16777216 +
                unat (response key_response ! 13) * 65536 +
                unat (response key_response ! 14) * 256 + unat (response key_response ! 15)"
    using handleKeyResponse_validates_length
      [where error = False and request = key_response
         and segment = "example_segment\<lparr>key := Some example_key\<rparr>" and k = example_key,
       THEN conjunct1]
      ok len k
    by simp
  then obtain w0 w4 w8 w12 where r:
    "handleKeyResponse (example_segment\<lparr>key := Some example_key\<rparr>) False key_response =
       Inr (None, example_segment\<lparr>key := Some (example_key\<lparr>key_bytes := Some [w0, w4, w8, w12]\<rparr>)\<rparr>)"
    and v: "unat w0 = unat (response key_response ! 0) * 16777216 +
                unat (response key_response ! 1) * 65536 +
                unat (response key_response ! 2) * 256 + unat (response key_response ! 3)"
      "unat w4 = unat (response key_response ! 4) * 16777216 +
                unat (response key_response ! 5) * 65536 +
                unat (response key_response ! 6) * 256 + unat (response key_response ! 7)"
      "unat w8 = unat (response key_response ! 8) * 16777216 +
                unat (response key_response ! 9) * 65536 +
                unat (response key_response ! 10) * 256 + unat (response key_response ! 11)"
      "unat w12 = unat (response key_response ! 12) * 16777216 +
                unat (response key_response ! 13) * 65536 +
                unat (response key_response ! 14) * 256 + unat (response key_response ! 15)"
    by blast
  have "unat w0 = 1" "unat w4 = 256" "unat w8 = 65536" "unat w12 = 16777216"
    using v by (simp_all add: key_response_def)
  then have "w0 = 1" "w4 = 256" "w8 = 65536" "w12 = 16777216"
    by (simp_all add: word_unat_eq_iff)
  with r have 1: "handleKeyResponse (example_segment\<lparr>key := Some example_key\<rparr>) False key_response =
     Inr (None, example_segment\<lparr>key := Some (example_key\<lparr>key_bytes := Some [1, 256, 65536, 16777216]\<rparr>)\<rparr>)"
    by simp
  from handleKeyResponse_validates_length
    [where error = False and request = "key_response\<lparr>response := [1, 2, 3]\<rparr>"
       and segment = "example_segment\<lparr>key := Some example_key\<rparr>" and k = example_key,
     THEN conjunct1]
    ok3 len3
  have 2: "\<exists>e. handleKeyResponse (example_segment\<lparr>key := Some example_key\<rparr>) False
           (key_response\<lparr>response := [1, 2, 3]\<rparr>) =
         Inr (Some e, example_segment\<lparr>key := Some example_key\<rparr>) \<and> code e = FAILURE"
    by blast
  have ab: "aborted (key_response\<lparr>aborted := True\<rparr>)"
    and nt: "\<not> timedout (key_response\<lparr>aborted := True\<rparr>)"
    by (simp_all add: key_response_def example_request_def)
  from handleKeyResponse_validates_length
    [where error = True and request = "key_response\<lparr>aborted := True\<rparr>"
       and segment = "example_segment\<lparr>key := Some example_key\<rparr>" and k = example_key,
     THEN conjunct2]
    ab
  have 3: "\<exists>e. handleKeyResponse (example_segment\<lparr>key := Some example_key\<rparr>) True
           (key_response\<lparr>aborted := True\<rparr>) =
         Inr (Some e, example_segment\<lparr>key := Some example_key\<rparr>) \<and> code e = - 102"
    unfolding if_not_P [OF nt] if_P [OF ab] ABORTED_def by blast
  from ok len 1 2 3 show ?thesis by blast
qed

section \<open>Response handlers forward an error without touching the descriptor\<close>

text \<open>
  Claim C10. Whenever a response handler (key, init segment, media segment) forwards a
  non-null error record to the completion tracker, the descriptor it forwards is the
  one it received: no key bytes, init-segment bytes, raw or encrypted bytes or
  statistics were written. This covers every error the handlers forward: the one that
  \<^verbatim>\<open>handleErrors\<close> makes of a time-out, an abort or a transport error, the wrong-length
  key, and the empty body of the init segment.
\<close>

theorem handlers_forward_error_unchanged:
  "(handleKeyResponse segment error request = Inr (Some e, segment') \<longrightarrow> segment' = segment) \<and>
   (handleInitSegmentResponse segment error request = Inr (Some e, segment') \<longrightarrow>
      segment' = segment) \<and>
   (handleSegmentResponse segment error request = (Some e, segment') \<longrightarrow> segment' = segment) \<and>
   (handleErrors error request \<noteq> None \<longrightarrow>
      handleKeyResponse segment error request = Inr (handleErrors error request, segment) \<and>
      handleInitSegmentResponse segment error request =
        Inr (handleErrors error request, segment) \<and>
      handleSegmentResponse segment error request = (handleErrors error request, segment)) \<and>
   (handleErrors error request = None \<and> length (response request) \<noteq> 16 \<longrightarrow>
      (\<exists>x. handleKeyResponse segment error request = Inr (Some x, segment))) \<and>
   (handleErrors error request = None \<and> length (response request) = 0 \<longrightarrow>
      (\<exists>x. handleInitSegmentResponse segment error request = Inr (Some x, segment))) \<and>
   (handleErrors error request = None \<longrightarrow>
      (\<exists>s. handleSegmentResponse segment error request = (None, s)))"
proof (intro conjI impI)
  assume "handleKeyResponse segment error request = Inr (Some e, segment')"
  then show "segment' = segment"
    by (auto simp add: handleKeyResponse_def Let_def
          split: if_splits sum.splits option.splits prod.splits)
next
  assume "handleInitSegmentResponse segment error request = Inr (Some e, segment')"
  then show "segment' = segment"
    by (auto simp add: handleInitSegmentResponse_def Let_def split: if_splits option.splits)
next
  assume "handleSegmentResponse segment error request = (Some e, segment')"
  then show "segment' = segment"
    by (auto simp add: handleSegmentResponse_def byteLength_of_text_def Let_def
          split: if_splits)
qed (auto simp add: handleKeyResponse_def handleInitSegmentResponse_def
       handleSegmentResponse_def byteLength_of_text_def Let_def)

theorem handlers_forward_error_unchanged_witness:
  "(\<exists>e. handleKeyResponse (example_segment\<lparr>key := Some example_key\<rparr>) False
          (key_response\<lparr>aborted := True\<rparr>) =
        Inr (Some e, example_segment\<lparr>key := Some example_key\<rparr>)) \<and>
   (\<exists>e. handleInitSegmentResponse (example_segment\<lparr>map_info := Some example_map\<rparr>) False
          (init_response\<lparr>response := []\<rparr>) =
        Inr (Some e, example_segment\<lparr>map_info := Some example_map\<rparr>)) \<and>
   (\<exists>e. handleSegmentResponse example_segment True (example_request\<lparr>timedout := True\<rparr>) =
        (Some e, example_segment))"
proof -
  have a: "handleErrors False (key_response\<lparr>aborted := True\<rparr>) \<noteq> None"
    and b: "handleErrors False (init_response\<lparr>response := []\<rparr>) = None"
    and c: "handleErrors True (example_request\<lparr>timedout := True\<rparr>) \<noteq> None"
    by (simp_all add: handleErrors_def key_response_def init_response_def example_request_def)
  from handlers_forward_error_unchanged
    [of "example_segment\<lparr>key := Some example_key\<rparr>" False "key_response\<lparr>aborted := True\<rparr>"] a
  have 1: "\<exists>e. handleKeyResponse (example_segment\<lparr>key := Some example_key\<rparr>) False
          (key_response\<lparr>aborted := True\<rparr>) =
        Inr (Some e, example_segment\<lparr>key := Some example_key\<rparr>)"
    by auto
  from handlers_forward_error_unchanged
    [of "example_segment\<lparr>map_info := Some example_map\<rparr>" False
        "init_response\<lparr>response := []\<rparr>"] b
  have 2: "\<exists>e. handleInitSegmentResponse (example_segment\<lparr>map_info := Some example_map\<rparr>) False
          (init_response\<lparr>response := []\<rparr>) =
        Inr (Some e, example_segment\<lparr>map_info := Some example_map\<rparr>)"
    by simp
  from handlers_forward_error_unchanged
    [of example_segment True "example_request\<lparr>timedout := True\<rparr>"] c
  have 3: "\<exists>e. handleSegmentResponse example_segment True (example_request\<lparr>timedout := True\<rparr>) =
        (Some e, example_segment)"
    by auto
  from 1 2 3 show ?thesis by blast
qed

section \<open>One call of the completion tracker\<close>

lemma handleDecryptedBytes_actions:
  assumes "handleDecryptedBytes P segment b isPartial doneFn = (n, s', acts)"
  shows "DoneFn e s r \<notin> set acts" and "XhrAbort x \<notin> set acts"
    and "AddEventListener i \<notin> set acts" and "RemoveEventListener i \<notin> set acts"
    and "PostMessage m \<notin> set acts" and "ProgressFn pe s \<notin> set acts"
    and "\<not> is_dispatch (\<not> isPartial) a \<or> a \<notin> set acts"
  using assms
  by (auto simp add: handleDecryptedBytes_def parseMp4AndNotify_def transmuxAndNotify_def Let_def
        split: option.splits if_splits)

lemma decryptSegment_actions:
  assumes "decryptSegment d segment = (d', s', acts)"
  shows "DoneFn e s r \<notin> set acts" and "XhrAbort x \<notin> set acts"
    and "\<not> is_dispatch p a \<or> a \<notin> set acts"
    and "\<exists>rest. acts = AddEventListener (requestId segment) # rest \<and>
           (\<forall>a\<in>set rest. \<not> is_listener_added a)"
  using assms
  by (auto simp add: decryptSegment_def Let_def split: option.splits prod.splits)

lemma waitForCompletion_not_last:
  assumes "count tr + 1 \<noteq> length xs"
  shows "waitForCompletion P xs now (tr, d) error segment =
           (\<lparr>errors = (case error of None \<Rightarrow> errors tr | Some e \<Rightarrow> errors tr @ [e]),
             count = count tr + 1\<rparr>, d, segment,
            (case error of None \<Rightarrow> [] | Some e \<Rightarrow> abortAll xs))"
  using assms by (simp add: waitForCompletion_def Let_def)

lemma waitForCompletion_last_error:
  assumes "count tr + 1 = length xs"
    and "errs = (case error of None \<Rightarrow> errors tr | Some e \<Rightarrow> errors tr @ [e])"
    and "errs \<noteq> []"
  shows "\<exists>w. getMostImportantError errs = Inr w \<and>
           waitForCompletion P xs now (tr, d) error segment =
             (\<lparr>errors = errs, count = count tr + 1\<rparr>, d,
              segment\<lparr>endOfAllRequests := Some now\<rparr>,
              (case error of None \<Rightarrow> [] | Some e \<Rightarrow> abortAll xs) @
              [DoneFn (Some w) (segment\<lparr>endOfAllRequests := Some now\<rparr>) None])"
proof -
  from assms(3) obtain w where w: "getMostImportantError errs = Inr w"
    by (cases errs) (simp_all add: getMostImportantError_def)
  show ?thesis
    using assms w by (intro exI [of _ w]) (simp add: waitForCompletion_def Let_def)
qed

lemma waitForCompletion_last_decrypt:
  assumes "count tr + 1 = length xs" and "error = None" and "errors tr = []"
    and "encryptedBytes segment \<noteq> None"
    and "decryptSegment d (segment\<lparr>endOfAllRequests := Some now\<rparr>) = (d', s', acts)"
  shows "waitForCompletion P xs now (tr, d) error segment =
           (\<lparr>errors = [], count = count tr + 1\<rparr>, d', s', acts)"
  using assms by (simp add: waitForCompletion_def Let_def)

lemma waitForCompletion_last_parse:
  assumes "count tr + 1 = length xs" and "error = None" and "errors tr = []"
    and "encryptedBytes segment = None"
    and "handleDecryptedBytes P (segment\<lparr>endOfAllRequests := Some now\<rparr>) (bytes segment)
           False True = (n, s', acts)"
  shows "waitForCompletion P xs now (tr, d) error segment =
           (\<lparr>errors = [], count = count tr + 1\<rparr>, d, s', acts)"
  using assms by (simp add: waitForCompletion_def Let_def)

lemma waitForCompletion_tracker:
  "fst (waitForCompletion P xs now (tr, d) error segment) =
     \<lparr>errors = (case error of None \<Rightarrow> errors tr | Some e \<Rightarrow> errors tr @ [e]),
      count = count tr + 1\<rparr>"
  by (simp add: waitForCompletion_def Let_def split: sum.splits prod.splits)

section \<open>One progress event, one worker reply\<close>

lemma handleProgress_skip:
  assumes "key segment \<noteq> None \<or> (\<exists>m. map_info segment = Some m \<and> map_bytes m = None)"
  shows "\<exists>st. handleProgress P now segment event =
           (segment\<lparr>stats := Some st\<rparr>, [ProgressFn event (segment\<lparr>stats := Some st\<rparr>)])"
proof -
  have g: "\<not> (key segment = None \<and>
              (case map_info segment of None \<Rightarrow> True | Some m \<Rightarrow> map_bytes m \<noteq> None))"
    using assms by (auto split: option.splits)
  show ?thesis
    unfolding handleProgress_def Let_def if_not_P [OF g] by (simp del: split_paired_Ex) blast
qed

lemma handleProgress_dispatch:
  assumes "key segment = None"
    and "map_info segment = None \<or> (\<exists>m b. map_info segment = Some m \<and> map_bytes m = Some b)"
    and "handleDecryptedBytes P segment
           (Some (Uint8Array (stringToArrayBuffer
              (substring (responseText (target event)) (or0 (lastReachedChar segment))))))
           True False = (n, s', acts)"
  shows "\<exists>st. handleProgress P now segment event =
           (s'\<lparr>lastReachedChar := js_add (lastReachedChar s') (Num n), stats := Some st\<rparr>,
            acts @ [ProgressFn event
              (s'\<lparr>lastReachedChar := js_add (lastReachedChar s') (Num n), stats := Some st\<rparr>)])"
proof -
  have g: "key segment = None \<and>
              (case map_info segment of None \<Rightarrow> True | Some m \<Rightarrow> map_bytes m \<noteq> None)"
    using assms(1,2) by (auto split: option.splits)
  show ?thesis
    unfolding handleProgress_def Let_def if_P [OF g] assms(3) by (simp del: split_paired_Ex) blast
qed

lemma handleDecryptedBytes_segment:
  assumes "handleDecryptedBytes P segment b isPartial doneFn = (n, s', acts)"
  shows "\<exists>bx. s' = segment\<lparr>boxes := bx\<rparr>"
    and "map_info segment = None \<Longrightarrow> s' = segment"
proof -
  show "\<exists>bx. s' = segment\<lparr>boxes := bx\<rparr>"
  proof (cases "map_info segment")
    case None
    with assms have "s' = segment"
      by (auto simp add: handleDecryptedBytes_def split: option.splits)
    then have "s' = segment\<lparr>boxes := boxes segment\<rparr>" by simp
    then show ?thesis by blast
  next
    case (Some m)
    with assms show ?thesis
      by (auto simp add: handleDecryptedBytes_def parseMp4AndNotify_def Let_def)
  qed
  show "map_info segment = None \<Longrightarrow> s' = segment"
    using assms by (auto simp add: handleDecryptedBytes_def split: option.splits)
qed

lemma decryptionHandler_other:
  assumes "source event \<noteq> requestId segment"
  shows "decryptionHandler P d segment event = (d, segment, [])"
  using assms by (simp add: decryptionHandler_def)

lemma decryptionHandler_match:
  assumes "source event = requestId segment"
    and "byteOffset event + byteLength event \<le> length (decrypted_bytes event)"
    and "view = \<lparr>buffer = decrypted_bytes event, u8_byteOffset = byteOffset event,
                  u8_length = byteLength event\<rparr>"
    and "handleDecryptedBytes P (segment\<lparr>bytes := Some view\<rparr>) (Some view) False True =
           (n, s', acts)"
  shows "decryptionHandler P d segment event =
           (d\<lparr>listeners := remove1 (requestId segment) (listeners d)\<rparr>, s',
            RemoveEventListener (requestId segment) # acts)"
  using assms by (simp add: decryptionHandler_def Uint8ArrayView_def Let_def)

lemma decryptionHandler_range_error:
  assumes "source event = requestId segment"
    and "\<not> byteOffset event + byteLength event \<le> length (decrypted_bytes event)"
  shows "decryptionHandler P d segment event =
           (d\<lparr>listeners := remove1 (requestId segment) (listeners d)\<rparr>, segment,
            [RemoveEventListener (requestId segment), Throw RangeError])"
  using assms by (simp add: decryptionHandler_def Uint8ArrayView_def Let_def)

lemma handleProgress_no_done:
  "DoneFn e s r \<notin> set (snd (handleProgress P now segment event))"
proof (cases "key segment = None \<and>
    (map_info segment = None \<or> (\<exists>m b. map_info segment = Some m \<and> map_bytes m = Some b))")
  case True
  obtain n s' acts where H: "handleDecryptedBytes P segment
           (Some (Uint8Array (stringToArrayBuffer
              (substring (responseText (target event)) (or0 (lastReachedChar segment))))))
           True False = (n, s', acts)"
    using prod_cases3 by blast
  from True handleProgress_dispatch [OF _ _ H, of now] handleDecryptedBytes_actions(1) [OF H]
  show ?thesis by auto
next
  case False
  then have "key segment \<noteq> None \<or> (\<exists>m. map_info segment = Some m \<and> map_bytes m = None)"
    by (cases "map_info segment") auto
  from handleProgress_skip [OF this, of P now event] show ?thesis by auto
qed

lemma decryptionHandler_no_done:
  "DoneFn e s r \<notin> set (snd (snd (decryptionHandler P d segment event)))"
proof -
  let ?view = "\<lparr>buffer = decrypted_bytes event, u8_byteOffset = byteOffset event,
                  u8_length = byteLength event\<rparr>"
  obtain n s' acts where H:
    "handleDecryptedBytes P (segment\<lparr>bytes := Some ?view\<rparr>) (Some ?view) False True =
       (n, s', acts)"
    using prod_cases3 by blast
  consider (other) "source event \<noteq> requestId segment"
    | (bad) "source event = requestId segment"
        "\<not> byteOffset event + byteLength event \<le> length (decrypted_bytes event)"
    | (good) "source event = requestId segment"
        "byteOffset event + byteLength event \<le> length (decrypted_bytes event)"
    by blast
  then show ?thesis
  proof cases
    case other
    then show ?thesis by (simp add: decryptionHandler_other)
  next
    case bad
    then show ?thesis by (simp add: decryptionHandler_range_error)
  next
    case good
    from decryptionHandler_match [OF good refl H, of d] handleDecryptedBytes_actions(1) [OF H]
    show ?thesis by simp
  qed
qed

section \<open>The transmuxer's completion callback\<close>

lemma waitForCompletion_no_null_done:
  "DoneFn None s r \<notin> set (snd (snd (snd (waitForCompletion P xs now st error segment))))"
proof -
  obtain tr d where st: "st = (tr, d)" by (cases st)
  let ?errs = "case error of None \<Rightarrow> errors tr | Some e \<Rightarrow> errors tr @ [e]"
  let ?ab = "(case error of None \<Rightarrow> [] | Some e \<Rightarrow> abortAll xs) :: 'a action list"
  let ?seg = "segment\<lparr>endOfAllRequests := Some now\<rparr>"
  have ab: "DoneFn None s r \<notin> set ?ab"
    by (auto simp add: abortAll_def split: option.splits)
  consider (other) "count tr + 1 \<noteq> length xs"
    | (err) "count tr + 1 = length xs" "?errs \<noteq> []"
    | (dec) "count tr + 1 = length xs" "?errs = []" "encryptedBytes segment \<noteq> None"
    | (parse) "count tr + 1 = length xs" "?errs = []" "encryptedBytes segment = None"
    by blast
  then show ?thesis
  proof cases
    case other
    from waitForCompletion_not_last [OF other, of P now d error segment] ab
    show ?thesis by (simp add: st)
  next
    case err
    from waitForCompletion_last_error [OF err(1) refl err(2), of P now d segment] ab
    show ?thesis by (auto simp add: st)
  next
    case dec
    then have e: "error = None" "errors tr = []" by (auto split: option.splits)
    obtain d' s' acts where D: "decryptSegment d ?seg = (d', s', acts)"
      by (cases "decryptSegment d ?seg")
    from waitForCompletion_last_decrypt [OF dec(1) e dec(3) D, of P] decryptSegment_actions(1) [OF D]
    show ?thesis by (simp add: st)
  next
    case parse
    then have e: "error = None" "errors tr = []" by (auto split: option.splits)
    obtain n s' acts where H:
      "handleDecryptedBytes P ?seg (bytes segment) False True = (n, s', acts)"
      by (cases "handleDecryptedBytes P ?seg (bytes segment) False True")
    from waitForCompletion_last_parse [OF parse(1) e parse(3) H, of d]
      handleDecryptedBytes_actions(1) [OF H]
    show ?thesis by (simp add: st)
  qed
qed

text \<open>
  Claim C9. When the result of the transmuxer's completion callback carries neither
  audio nor video timing information, the callback does not call \<^verbatim>\<open>doneFn\<close>. A call
  of \<^verbatim>\<open>doneFn\<close> that this callback makes has a null error and a result with audio or
  video timing information, and no other part of the module (the completion tracker,
  the progress handler, the decryption listener) calls \<^verbatim>\<open>doneFn\<close> with a null error.
\<close>

theorem onDone_ignores_empty_completion:
  "(audioTimingInfo result = None \<and> videoTimingInfo result = None \<longrightarrow>
      onDone doneFn segment result = []) \<and>
   (DoneFn e s r \<in> set (onDone doneFn segment result) \<longrightarrow>
      e = None \<and> s = segment \<and> r = Some result \<and> doneFn \<and>
      (audioTimingInfo result \<noteq> None \<or> videoTimingInfo result \<noteq> None)) \<and>
   (doneFn \<and> (audioTimingInfo result \<noteq> None \<or> videoTimingInfo result \<noteq> None) \<longrightarrow>
      onDone doneFn segment result = [DoneFn None segment (Some result)]) \<and>
   DoneFn None s r \<notin> set (snd (snd (snd (waitForCompletion P xs now st error segment)))) \<and>
   DoneFn None s r \<notin> set (snd (handleProgress P now segment event)) \<and>
   DoneFn None s r \<notin> set (snd (snd (decryptionHandler P d segment reply)))"
proof (intro conjI impI)
  show "DoneFn None s r \<notin> set (snd (snd (snd (waitForCompletion P xs now st error segment))))"
    by (rule waitForCompletion_no_null_done)
  show "DoneFn None s r \<notin> set (snd (handleProgress P now segment event))"
    by (rule handleProgress_no_done)
  show "DoneFn None s r \<notin> set (snd (snd (decryptionHandler P d segment reply)))"
    by (rule decryptionHandler_no_done)
next
  assume "audioTimingInfo result = None \<and> videoTimingInfo result = None"
  then show "onDone doneFn segment result = []" by (simp add: onDone_def)
next
  assume a: "DoneFn e s r \<in> set (onDone doneFn segment result)"
  then have "onDone doneFn segment result \<noteq> []" by auto
  then have c: "doneFn" "\<not> (audioTimingInfo result = None \<and> videoTimingInfo result = None)"
    by (simp_all add: onDone_def split: if_splits)
  then have "onDone doneFn segment result = [DoneFn None segment (Some result)]"
    by (simp add: onDone_def)
  with a have "DoneFn e s r = DoneFn None segment (Some result)" by simp
  then show "e = None" "s = segment" "r = Some result" by simp_all
  from c show "doneFn" "audioTimingInfo result \<noteq> None \<or> videoTimingInfo result \<noteq> None"
    by simp_all
next
  assume "doneFn \<and> (audioTimingInfo result \<noteq> None \<or> videoTimingInfo result \<noteq> None)"
  then show "onDone doneFn segment result = [DoneFn None segment (Some result)]"
    by (auto simp add: onDone_def)
qed

theorem onDone_ignores_empty_completion_witness:
  "onDone True example_segment
      \<lparr>audioTimingInfo = None, videoTimingInfo = None, tr_data = []\<rparr> = [] \<and>
   onDone True example_segment
      \<lparr>audioTimingInfo = None, videoTimingInfo = Some (0, 90000), tr_data = [71]\<rparr> =
     [DoneFn None example_segment
        (Some \<lparr>audioTimingInfo = None, videoTimingInfo = Some (0, 90000), tr_data = [71]\<rparr>)]"
proof -
  have 1: "onDone True example_segment
      \<lparr>audioTimingInfo = None, videoTimingInfo = None, tr_data = []\<rparr> = []"
    using onDone_ignores_empty_completion [THEN conjunct1,
      of "\<lparr>audioTimingInfo = None, videoTimingInfo = None, tr_data = []\<rparr>" True example_segment]
    by simp
  have 2: "onDone True example_segment
      \<lparr>audioTimingInfo = None, videoTimingInfo = Some (0, 90000), tr_data = [71]\<rparr> =
     [DoneFn None example_segment
        (Some \<lparr>audioTimingInfo = None, videoTimingInfo = Some (0, 90000), tr_data = [71]\<rparr>)]"
    using onDone_ignores_empty_completion [THEN conjunct2, THEN conjunct2, THEN conjunct1,
      of True "\<lparr>audioTimingInfo = None, videoTimingInfo = Some (0, 90000), tr_data = [71]\<rparr>"
         example_segment]
    by simp
  from 1 2 show ?thesis by (rule conjI)
qed

section \<open>The tracker over all calls\<close>

lemma handleDecryptedBytes_kinds:
  assumes "handleDecryptedBytes P segment b isPartial doneFn = (n, s', acts)"
  shows "filter is_error_report acts = []" and "filter is_listener_added acts = []"
    and "filter is_abort acts = []"
    and "length (filter (is_dispatch isPartial) acts) =
           (if map_info segment = None \<and> b = None then 0 else 1)"
    and "filter (is_dispatch (\<not> isPartial)) acts = []"
  using assms
  by (auto simp add: handleDecryptedBytes_def parseMp4AndNotify_def transmuxAndNotify_def Let_def
        split: option.splits if_splits)

lemma decryptSegment_kinds:
  assumes "decryptSegment d segment = (d', s', acts)"
  shows "filter is_error_report acts = []" and "length (filter is_listener_added acts) = 1"
    and "filter is_abort acts = []" and "filter (is_dispatch p) acts = []"
  using assms
  by (auto simp add: decryptSegment_def Let_def split: option.splits prod.splits)

lemma abortAll_kinds:
  "filter is_error_report (abortAll xs :: 'b action list) = []"
  "filter is_listener_added (abortAll xs :: 'b action list) = []"
  "filter (is_dispatch p) (abortAll xs :: 'b action list) = []"
  "filter is_abort (abortAll xs :: 'b action list) = abortAll xs"
  by (induction xs) (simp_all add: abortAll_def)

lemma callbacks_length: "length (callbacks P xs st cbs) = length cbs"
proof (induction cbs arbitrary: st)
  case Nil
  show ?case by simp
next
  case (Cons c cs)
  obtain now e seg where c: "c = (now, e, seg)" by (cases c)
  show ?case using Cons by (simp add: c split: prod.splits)
qed

lemma callbacks_Suc:
  "callbacks P xs (tr, d) ((now, e, seg) # cs) ! Suc j =
     callbacks P xs (fst (waitForCompletion P xs now (tr, d) e seg),
                     fst (snd (waitForCompletion P xs now (tr, d) e seg))) cs ! j"
  by (simp split: prod.splits)

lemma callbacks_0:
  "callbacks P xs (tr, d) ((now, e, seg) # cs) ! 0 =
     snd (snd (waitForCompletion P xs now (tr, d) e seg))"
  by (simp split: prod.splits)

lemma callbacks_other:
  assumes "k < length cbs" and "count tr + Suc k \<noteq> length xs"
  shows "callbacks P xs (tr, d) cbs ! k =
           (snd (snd (cbs ! k)),
            (case fst (snd (cbs ! k)) of None \<Rightarrow> [] | Some e \<Rightarrow> abortAll xs))"
  using assms
proof (induction cbs arbitrary: tr d k)
  case Nil
  then show ?case by simp
next
  case (Cons c cs)
  obtain now e seg where c: "c = (now, e, seg)" by (cases c)
  show ?case
  proof (cases k)
    case 0
    with Cons.prems have "count tr + 1 \<noteq> length xs" by simp
    from waitForCompletion_not_last [OF this, of P now d e seg]
    show ?thesis unfolding 0 c callbacks_0 by simp
  next
    case (Suc j)
    let ?w = "waitForCompletion P xs now (tr, d) e seg"
    have cnt: "count (fst ?w) = count tr + 1"
      by (simp add: waitForCompletion_tracker)
    from Cons.prems Suc have j: "j < length cs" and n: "count (fst ?w) + Suc j \<noteq> length xs"
      by (simp_all add: cnt)
    from Cons.IH [OF j n, of "fst (snd ?w)"]
    show ?thesis unfolding Suc c callbacks_Suc by simp
  qed
qed

lemma callbacks_upto:
  assumes "k < length cbs" and "count tr + Suc k \<le> length xs"
  shows "callbacks P xs (tr, d) cbs ! k =
           snd (snd (waitForCompletion P xs (fst (cbs ! k))
             (\<lparr>errors = errors tr @ errors_of (take k cbs), count = count tr + k\<rparr>, d)
             (fst (snd (cbs ! k))) (snd (snd (cbs ! k)))))"
  using assms
proof (induction cbs arbitrary: tr k)
  case Nil
  then show ?case by simp
next
  case (Cons c cs)
  obtain now e seg where c: "c = (now, e, seg)" by (cases c)
  show ?case
  proof (cases k)
    case 0
    show ?thesis unfolding 0 c callbacks_0 by (cases tr) simp
  next
    case (Suc j)
    let ?tr = "\<lparr>errors = (case e of None \<Rightarrow> errors tr | Some x \<Rightarrow> errors tr @ [x]),
                count = count tr + 1\<rparr>"
    from Cons.prems Suc have "count tr + 1 \<noteq> length xs" by simp
    from waitForCompletion_not_last [OF this, of P now d e seg]
    have w: "waitForCompletion P xs now (tr, d) e seg =
               (?tr, d, seg, (case e of None \<Rightarrow> [] | Some x \<Rightarrow> abortAll xs))" .
    from Cons.prems Suc have j: "j < length cs" and n: "count ?tr + Suc j \<le> length xs"
      by simp_all
    have er: "errors ?tr @ errors_of (take j cs) =
                errors tr @ errors_of (take (Suc j) ((now, e, seg) # cs))"
      by (cases e) simp_all
    from Cons.IH [OF j n]
    show ?thesis unfolding Suc c callbacks_Suc w using er by simp
  qed
qed

section \<open>The hand-off happens once\<close>

lemma errors_of_append: "errors_of (as @ bs) = errors_of as @ errors_of bs"
  by (induction as rule: errors_of.induct) simp_all

lemma errors_of_take_Suc:
  assumes "k < length cbs"
  shows "errors_of (take (Suc k) cbs) =
           (case fst (snd (cbs ! k)) of
              None \<Rightarrow> errors_of (take k cbs)
            | Some e \<Rightarrow> errors_of (take k cbs) @ [e])"
proof -
  obtain now e seg where c: "cbs ! k = (now, e, seg)" by (cases "cbs ! k")
  have "take (Suc k) cbs = take k cbs @ [(now, e, seg)]"
    using assms c by (simp add: take_Suc_conv_app_nth)
  then show ?thesis by (cases e) (simp_all add: errors_of_append c)
qed

lemma paths_abortAll: "paths (abortAll xs :: 'b action list) = (0, 0, 0)"
  by (simp add: paths_def abortAll_kinds)

lemma paths_aborts:
  "paths ((case error of None \<Rightarrow> [] | Some e \<Rightarrow> abortAll xs) :: 'b action list) = (0, 0, 0)"
  by (cases error) (simp_all add: paths_abortAll, simp add: paths_def)

lemma handoff_error:
  assumes "count tr + 1 = length xs"
    and "errs = (case error of None \<Rightarrow> errors tr | Some e \<Rightarrow> errors tr @ [e])"
    and "errs \<noteq> []"
  shows "\<exists>w. getMostImportantError errs = Inr w \<and>
           snd (snd (waitForCompletion P xs now (tr, d) error segment)) =
             (segment\<lparr>endOfAllRequests := Some now\<rparr>,
              (case error of None \<Rightarrow> [] | Some e \<Rightarrow> abortAll xs) @
              [DoneFn (Some w) (segment\<lparr>endOfAllRequests := Some now\<rparr>) None])"
    and "paths (snd (snd (snd (waitForCompletion P xs now (tr, d) error segment)))) = (1, 0, 0)"
proof -
  from waitForCompletion_last_error [OF assms, of P now d segment]
  obtain w where w: "getMostImportantError errs = Inr w"
    and r: "waitForCompletion P xs now (tr, d) error segment =
             (\<lparr>errors = errs, count = count tr + 1\<rparr>, d,
              segment\<lparr>endOfAllRequests := Some now\<rparr>,
              (case error of None \<Rightarrow> [] | Some e \<Rightarrow> abortAll xs) @
              [DoneFn (Some w) (segment\<lparr>endOfAllRequests := Some now\<rparr>) None])"
    by blast
  from w r show "\<exists>w. getMostImportantError errs = Inr w \<and>
           snd (snd (waitForCompletion P xs now (tr, d) error segment)) =
             (segment\<lparr>endOfAllRequests := Some now\<rparr>,
              (case error of None \<Rightarrow> [] | Some e \<Rightarrow> abortAll xs) @
              [DoneFn (Some w) (segment\<lparr>endOfAllRequests := Some now\<rparr>) None])"
    by simp
  from paths_aborts [where error = error and xs = xs]
  show "paths (snd (snd (snd (waitForCompletion P xs now (tr, d) error segment)))) = (1, 0, 0)"
    unfolding r by (simp add: paths_def)
qed

lemma handoff_decrypt:
  assumes "count tr + 1 = length xs"
    and "(case error of None \<Rightarrow> errors tr | Some e \<Rightarrow> errors tr @ [e]) = []"
    and "encryptedBytes segment \<noteq> None"
  shows "snd (snd (waitForCompletion P xs now (tr, d) error segment)) =
           snd (decryptSegment d (segment\<lparr>endOfAllRequests := Some now\<rparr>))"
    and "paths (snd (snd (snd (waitForCompletion P xs now (tr, d) error segment)))) = (0, 1, 0)"
proof -
  from assms(2) have e: "error = None" "errors tr = []" by (auto split: option.splits)
  obtain d' s' acts where D:
    "decryptSegment d (segment\<lparr>endOfAllRequests := Some now\<rparr>) = (d', s', acts)"
    using prod_cases3 by blast
  note r = waitForCompletion_last_decrypt [OF assms(1) e assms(3) D, of P]
  show "snd (snd (waitForCompletion P xs now (tr, d) error segment)) =
           snd (decryptSegment d (segment\<lparr>endOfAllRequests := Some now\<rparr>))"
    unfolding r D by simp
  show "paths (snd (snd (snd (waitForCompletion P xs now (tr, d) error segment)))) = (0, 1, 0)"
    unfolding r by (simp add: paths_def decryptSegment_kinds [OF D])
qed

lemma handoff_parse:
  assumes "count tr + 1 = length xs"
    and "(case error of None \<Rightarrow> errors tr | Some e \<Rightarrow> errors tr @ [e]) = []"
    and "encryptedBytes segment = None"
  shows "snd (snd (waitForCompletion P xs now (tr, d) error segment)) =
           snd (handleDecryptedBytes P (segment\<lparr>endOfAllRequests := Some now\<rparr>)
                  (bytes segment) False True)"
    and "paths (snd (snd (snd (waitForCompletion P xs now (tr, d) error segment)))) =
           (0, 0, if map_info segment = None \<and> bytes segment = None then 0 else 1)"
proof -
  from assms(2) have e: "error = None" "errors tr = []" by (auto split: option.splits)
  obtain n s' acts where H:
    "handleDecryptedBytes P (segment\<lparr>endOfAllRequests := Some now\<rparr>) (bytes segment)
       False True = (n, s', acts)"
    using prod_cases3 by blast
  note r = waitForCompletion_last_parse [OF assms(1) e assms(3) H, of d]
  show "snd (snd (waitForCompletion P xs now (tr, d) error segment)) =
           snd (handleDecryptedBytes P (segment\<lparr>endOfAllRequests := Some now\<rparr>)
                  (bytes segment) False True)"
    unfolding r H by simp
  show "paths (snd (snd (snd (waitForCompletion P xs now (tr, d) error segment)))) =
           (0, 0, if map_info segment = None \<and> bytes segment = None then 0 else 1)"
    unfolding r using handleDecryptedBytes_kinds [OF H] by (simp add: paths_def)
qed

lemma activeXhrs_of_length: "length (activeXhrs_of segment) \<in> {1, 2, 3}"
  by (simp add: activeXhrs_of_def mediaSegmentRequest_def split: option.splits)

text \<open>
  Claim C1. A descriptor requires one, two or three requests. Let the tracker be called
  once for every request that ends, in any order and with any outcome, \<open>xs\<close> being the
  tracked requests. A call that is not the \<open>length xs\<close>-th only counts (and aborts, when
  it brings an error): it reports no error, registers no listener and dispatches
  nothing. The \<open>length xs\<close>-th call performs the hand-off, and exactly one branch of it:
  when an error was accumulated it reports the most important one to \<^verbatim>\<open>doneFn\<close>;
  otherwise, when \<^verbatim>\<open>segment.encryptedBytes\<close> is set, it calls \<^verbatim>\<open>decryptSegment\<close>;
  otherwise it dispatches \<^verbatim>\<open>segment.bytes\<close> with \<^verbatim>\<open>isPartial = false\<close> (a call that reaches
  the collaborator unless the descriptor has neither \<^verbatim>\<open>map\<close> nor \<^verbatim>\<open>bytes\<close>, when the
  dispatcher raises first). As no later call is the \<open>length xs\<close>-th, the hand-off happens
  exactly once.
\<close>

theorem completion_tracker_hands_off_once:
  "length (activeXhrs_of segment0) \<in> {1, 2, 3} \<and>
   length (callbacks P xs (\<lparr>errors = [], count = 0\<rparr>, d) cbs) = length cbs \<and>
   (\<forall>k<length cbs. Suc k \<noteq> length xs \<longrightarrow>
      callbacks P xs (\<lparr>errors = [], count = 0\<rparr>, d) cbs ! k =
        (snd (snd (cbs ! k)),
         (case fst (snd (cbs ! k)) of None \<Rightarrow> [] | Some e \<Rightarrow> abortAll xs)) \<and>
      paths (snd (callbacks P xs (\<lparr>errors = [], count = 0\<rparr>, d) cbs ! k)) = (0, 0, 0)) \<and>
   (\<forall>k<length cbs. Suc k = length xs \<longrightarrow>
      (errors_of (take (Suc k) cbs) \<noteq> [] \<longrightarrow>
         (\<exists>w. getMostImportantError (errors_of (take (Suc k) cbs)) = Inr w \<and>
              callbacks P xs (\<lparr>errors = [], count = 0\<rparr>, d) cbs ! k =
                (snd (snd (cbs ! k))\<lparr>endOfAllRequests := Some (fst (cbs ! k))\<rparr>,
                 (case fst (snd (cbs ! k)) of None \<Rightarrow> [] | Some e \<Rightarrow> abortAll xs) @
                 [DoneFn (Some w)
                    (snd (snd (cbs ! k))\<lparr>endOfAllRequests := Some (fst (cbs ! k))\<rparr>) None])) \<and>
         paths (snd (callbacks P xs (\<lparr>errors = [], count = 0\<rparr>, d) cbs ! k)) = (1, 0, 0)) \<and>
      (errors_of (take (Suc k) cbs) = [] \<and> encryptedBytes (snd (snd (cbs ! k))) \<noteq> None \<longrightarrow>
         callbacks P xs (\<lparr>errors = [], count = 0\<rparr>, d) cbs ! k =
           snd (decryptSegment d
                  (snd (snd (cbs ! k))\<lparr>endOfAllRequests := Some (fst (cbs ! k))\<rparr>)) \<and>
         paths (snd (callbacks P xs (\<lparr>errors = [], count = 0\<rparr>, d) cbs ! k)) = (0, 1, 0)) \<and>
      (errors_of (take (Suc k) cbs) = [] \<and> encryptedBytes (snd (snd (cbs ! k))) = None \<longrightarrow>
         callbacks P xs (\<lparr>errors = [], count = 0\<rparr>, d) cbs ! k =
           snd (handleDecryptedBytes P
                  (snd (snd (cbs ! k))\<lparr>endOfAllRequests := Some (fst (cbs ! k))\<rparr>)
                  (bytes (snd (snd (cbs ! k)))) False True) \<and>
         paths (snd (callbacks P xs (\<lparr>errors = [], count = 0\<rparr>, d) cbs ! k)) =
           (0, 0, if map_info (snd (snd (cbs ! k))) = None \<and> bytes (snd (snd (cbs ! k))) = None
                  then 0 else 1)))"
proof (intro conjI allI impI)
  let ?t0 = "\<lparr>errors = [], count = 0\<rparr>"
  show "length (activeXhrs_of segment0) \<in> {1, 2, 3}" by (rule activeXhrs_of_length)
  show "length (callbacks P xs (?t0, d) cbs) = length cbs" by (rule callbacks_length)
  {
    fix k assume k: "k < length cbs" and n: "Suc k \<noteq> length xs"
    then have "count ?t0 + Suc k \<noteq> length xs" by simp
    from callbacks_other [OF k this, of P d]
    show o: "callbacks P xs (?t0, d) cbs ! k =
        (snd (snd (cbs ! k)),
         (case fst (snd (cbs ! k)) of None \<Rightarrow> [] | Some e \<Rightarrow> abortAll xs))" .
    show "paths (snd (callbacks P xs (?t0, d) cbs ! k)) = (0, 0, 0)"
      unfolding o by (simp add: paths_aborts)
  }
  {
    fix k assume k: "k < length cbs" and n: "Suc k = length xs"
    let ?now = "fst (cbs ! k)" and ?e = "fst (snd (cbs ! k))" and ?seg = "snd (snd (cbs ! k))"
    let ?tr = "\<lparr>errors = errors_of (take k cbs), count = k\<rparr>"
    from n have "count ?t0 + Suc k \<le> length xs" by simp
    from callbacks_upto [OF k this, of P d]
    have o: "callbacks P xs (?t0, d) cbs ! k =
               snd (snd (waitForCompletion P xs ?now (?tr, d) ?e ?seg))"
      by simp
    have c: "count ?tr + 1 = length xs" using n by simp
    have er: "errors_of (take (Suc k) cbs) =
                (case ?e of None \<Rightarrow> errors ?tr | Some e \<Rightarrow> errors ?tr @ [e])"
      using errors_of_take_Suc [OF k] by (simp split: option.splits)
    {
      assume ne: "errors_of (take (Suc k) cbs) \<noteq> []"
      from handoff_error(1) [OF c er ne, of P ?now d ?seg]
      show "\<exists>w. getMostImportantError (errors_of (take (Suc k) cbs)) = Inr w \<and>
              callbacks P xs (?t0, d) cbs ! k =
                (?seg\<lparr>endOfAllRequests := Some ?now\<rparr>,
                 (case ?e of None \<Rightarrow> [] | Some e \<Rightarrow> abortAll xs) @
                 [DoneFn (Some w) (?seg\<lparr>endOfAllRequests := Some ?now\<rparr>) None])"
        unfolding o .
      from handoff_error(2) [OF c er ne, of P ?now d ?seg]
      show "paths (snd (callbacks P xs (?t0, d) cbs ! k)) = (1, 0, 0)"
        unfolding o .
    }
    {
      assume "errors_of (take (Suc k) cbs) = [] \<and> encryptedBytes ?seg \<noteq> None"
      then have em: "(case ?e of None \<Rightarrow> errors ?tr | Some e \<Rightarrow> errors ?tr @ [e]) = []"
        and enc: "encryptedBytes ?seg \<noteq> None"
        unfolding er by simp_all
      from handoff_decrypt(1) [OF c em enc, of P ?now d]
      show "callbacks P xs (?t0, d) cbs ! k =
           snd (decryptSegment d (?seg\<lparr>endOfAllRequests := Some ?now\<rparr>))"
        unfolding o .
      from handoff_decrypt(2) [OF c em enc, of P ?now d]
      show "paths (snd (callbacks P xs (?t0, d) cbs ! k)) = (0, 1, 0)"
        unfolding o .
    }
    {
      assume "errors_of (take (Suc k) cbs) = [] \<and> encryptedBytes ?seg = None"
      then have em: "(case ?e of None \<Rightarrow> errors ?tr | Some e \<Rightarrow> errors ?tr @ [e]) = []"
        and enc: "encryptedBytes ?seg = None"
        unfolding er by simp_all
      from handoff_parse(1) [OF c em enc, of P ?now d]
      show "callbacks P xs (?t0, d) cbs ! k =
           snd (handleDecryptedBytes P (?seg\<lparr>endOfAllRequests := Some ?now\<rparr>)
                  (bytes ?seg) False True)"
        unfolding o .
      from handoff_parse(2) [OF c em enc, of P ?now d]
      show "paths (snd (callbacks P xs (?t0, d) cbs ! k)) =
           (0, 0, if map_info ?seg = None \<and> bytes ?seg = None then 0 else 1)"
        unfolding o .
    }
  }
qed

theorem completion_tracker_hands_off_once_witness:
  "paths (snd (callbacks example_parser [KeyRequest, SegmentRequest]
      (\<lparr>errors = [], count = 0\<rparr>, example_decrypter)
      [(10, None, example_segment), (20, None, encrypted_segment)] ! 0)) = (0, 0, 0) \<and>
   paths (snd (callbacks example_parser [KeyRequest, SegmentRequest]
      (\<lparr>errors = [], count = 0\<rparr>, example_decrypter)
      [(10, None, example_segment), (20, None, encrypted_segment)] ! 1)) = (0, 1, 0) \<and>
   paths (snd (callbacks example_parser [KeyRequest, SegmentRequest]
      (\<lparr>errors = [], count = 0\<rparr>, example_decrypter)
      [(10, Some (example_error False False), example_segment),
       (20, Some (example_error False True), example_segment)] ! 1)) = (1, 0, 0) \<and>
   paths (snd (callbacks example_parser [SegmentRequest]
      (\<lparr>errors = [], count = 0\<rparr>, example_decrypter)
      [(5, None, clear_segment)] ! 0)) = (0, 0, 1)"
proof -
  let ?a = "[(10, None, example_segment), (20, None, encrypted_segment)]"
  let ?b = "[(10, Some (example_error False False), example_segment),
             (20, Some (example_error False True), example_segment)]"
  let ?c = "[(5 :: int, None :: error_rec option, clear_segment)]"
  note other = completion_tracker_hands_off_once
    [THEN conjunct2, THEN conjunct2, THEN conjunct1, rule_format]
  note last = completion_tracker_hands_off_once
    [THEN conjunct2, THEN conjunct2, THEN conjunct2, rule_format]
  have 1: "paths (snd (callbacks example_parser [KeyRequest, SegmentRequest]
      (\<lparr>errors = [], count = 0\<rparr>, example_decrypter) ?a ! 0)) = (0, 0, 0)"
  proof -
    have h: "0 < length ?a" "Suc 0 \<noteq> length [KeyRequest, SegmentRequest]" by simp_all
    show ?thesis by (rule other [OF h, THEN conjunct2])
  qed
  have 2: "paths (snd (callbacks example_parser [KeyRequest, SegmentRequest]
      (\<lparr>errors = [], count = 0\<rparr>, example_decrypter) ?a ! 1)) = (0, 1, 0)"
  proof -
    have h: "1 < length ?a" "Suc 1 = length [KeyRequest, SegmentRequest]" by simp_all
    have p: "errors_of (take (Suc 1) ?a) = [] \<and> encryptedBytes (snd (snd (?a ! 1))) \<noteq> None"
      by (simp add: encrypted_segment_def)
    show ?thesis
      by (rule last [OF h, THEN conjunct2, THEN conjunct1, THEN mp, OF p, THEN conjunct2])
  qed
  have 3: "paths (snd (callbacks example_parser [KeyRequest, SegmentRequest]
      (\<lparr>errors = [], count = 0\<rparr>, example_decrypter) ?b ! 1)) = (1, 0, 0)"
  proof -
    have h: "1 < length ?b" "Suc 1 = length [KeyRequest, SegmentRequest]" by simp_all
    have p: "errors_of (take (Suc 1) ?b) \<noteq> []" by simp
    show ?thesis
      by (rule last [OF h, THEN conjunct1, THEN mp, OF p, THEN conjunct2])
  qed
  have 4: "paths (snd (callbacks example_parser [SegmentRequest]
      (\<lparr>errors = [], count = 0\<rparr>, example_decrypter) ?c ! 0)) = (0, 0, 1)"
  proof -
    have h: "0 < length ?c" "Suc 0 = length [SegmentRequest]" by simp_all
    have p: "errors_of (take (Suc 0) ?c) = [] \<and> encryptedBytes (snd (snd (?c ! 0))) = None"
      by (simp add: clear_segment_def example_segment_def)
    have q: "(if map_info (snd (snd (?c ! 0))) = None \<and> bytes (snd (snd (?c ! 0))) = None
              then 0 else 1) = (1 :: nat)"
      by (simp add: clear_segment_def example_segment_def)
    show ?thesis
      using last [OF h, THEN conjunct2, THEN conjunct2, THEN mp, OF p, THEN conjunct2]
      unfolding q .
  qed
  from 1 2 3 4 show ?thesis by (intro conjI)
qed

section \<open>Errors abort every tracked request\<close>

lemma count_abortAll: "count_list (abortAll xs :: 'b action list) (XhrAbort x) = count_list xs x"
  by (induction xs) (simp_all add: abortAll_def)

lemma waitForCompletion_abort_count:
  "count_list (snd (snd (snd (waitForCompletion P xs now (tr, d) error segment)))) (XhrAbort x) =
     (case error of None \<Rightarrow> 0 | Some e \<Rightarrow> count_list xs x)"
proof -
  let ?errs = "case error of None \<Rightarrow> errors tr | Some e \<Rightarrow> errors tr @ [e]"
  let ?ab = "(case error of None \<Rightarrow> [] | Some e \<Rightarrow> abortAll xs) :: 'a action list"
  let ?seg = "segment\<lparr>endOfAllRequests := Some now\<rparr>"
  have ab: "count_list ?ab (XhrAbort x) = (case error of None \<Rightarrow> 0 | Some e \<Rightarrow> count_list xs x)"
    by (cases error) (simp_all add: count_abortAll)
  consider (other) "count tr + 1 \<noteq> length xs"
    | (err) "count tr + 1 = length xs" "?errs \<noteq> []"
    | (dec) "count tr + 1 = length xs" "?errs = []" "encryptedBytes segment \<noteq> None"
    | (parse) "count tr + 1 = length xs" "?errs = []" "encryptedBytes segment = None"
    by blast
  then show ?thesis
  proof cases
    case other
    from waitForCompletion_not_last [OF other, of P now d error segment] ab
    show ?thesis by simp
  next
    case err
    from waitForCompletion_last_error [OF err(1) refl err(2), of P now d segment] ab
    show ?thesis by auto
  next
    case dec
    then have e: "error = None" "errors tr = []" by (auto split: option.splits)
    obtain d' s' acts where D: "decryptSegment d ?seg = (d', s', acts)"
      using prod_cases3 by blast
    from decryptSegment_actions(2) [OF D, of x] have "count_list acts (XhrAbort x) = 0"
      by (simp add: count_list_0_iff)
    with waitForCompletion_last_decrypt [OF dec(1) e dec(3) D, of P] e
    show ?thesis by simp
  next
    case parse
    then have e: "error = None" "errors tr = []" by (auto split: option.splits)
    obtain n s' acts where H:
      "handleDecryptedBytes P ?seg (bytes segment) False True = (n, s', acts)"
      using prod_cases3 by blast
    from handleDecryptedBytes_actions(2) [OF H, of x] have "count_list acts (XhrAbort x) = 0"
      by (simp add: count_list_0_iff)
    with waitForCompletion_last_parse [OF parse(1) e parse(3) H, of d] e
    show ?thesis by simp
  qed
qed

lemma count_list_append': "count_list (as @ bs) y = count_list as y + count_list bs y"
  by (induction as) simp_all

lemma callbacks_abort_count:
  "count_list (concat (map snd (callbacks P xs (tr, d) cbs))) (XhrAbort x) =
     length (errors_of cbs) * count_list xs x"
proof (induction cbs arbitrary: tr d)
  case Nil
  show ?case by simp
next
  case (Cons c cs)
  obtain now e seg where c: "c = (now, e, seg)" by (cases c)
  obtain tr' d' s' acts where w: "waitForCompletion P xs now (tr, d) e seg = (tr', d', s', acts)"
    using prod_cases4 by blast
  from waitForCompletion_abort_count [of P xs now tr d e seg x]
  have a: "count_list acts (XhrAbort x) = (case e of None \<Rightarrow> 0 | Some y \<Rightarrow> count_list xs x)"
    by (simp add: w)
  have st: "callbacks P xs (tr, d) (c # cs) = (s', acts) # callbacks P xs (tr', d') cs"
    by (simp add: c w)
  have er: "length (errors_of (c # cs)) =
              (case e of None \<Rightarrow> 0 | Some y \<Rightarrow> 1) + length (errors_of cs)"
    by (cases e) (simp_all add: c)
  show ?case
    unfolding st er using Cons [of tr' d'] a
    by (cases e) (simp_all add: count_list_append')
qed

lemma activeXhrs_of_distinct: "distinct (activeXhrs_of segment)"
  by (auto simp add: activeXhrs_of_def mediaSegmentRequest_def split: option.splits)

lemma distinct_count_one:
  "distinct xs \<Longrightarrow> x \<in> set xs \<Longrightarrow> count_list xs x = 1"
  by (induction xs) (auto simp add: count_notin)

text \<open>
  Claim C8, as stated, fails. A descriptor with a key and an init segment has three
  requests in flight. The key request fails and \<^verbatim>\<open>abortAll\<close> calls \<^verbatim>\<open>abort()\<close> on all
  three; the init-segment request then ends as aborted, which is an error completion
  again, and \<^verbatim>\<open>abortAll\<close> runs a second time. The media request has not ended (the
  tracker has counted two of three), and it has received two cancellation calls.
\<close>

theorem abortAll_twice_counterexample:
  "activeXhrs_of full_segment = [KeyRequest, InitSegmentRequest, SegmentRequest] \<and>
   p_trace (run example_parser (activeXhrs_of full_segment)
              (start full_segment example_decrypter)
              [(10, KeyResponse True key_response),
               (11, InitSegmentResponse False (example_request\<lparr>aborted := True\<rparr>))]) =
     [XhrAbort KeyRequest, XhrAbort InitSegmentRequest, XhrAbort SegmentRequest,
      XhrAbort KeyRequest, XhrAbort InitSegmentRequest, XhrAbort SegmentRequest] \<and>
   count (p_tracker (run example_parser (activeXhrs_of full_segment)
              (start full_segment example_decrypter)
              [(10, KeyResponse True key_response),
               (11, InitSegmentResponse False (example_request\<lparr>aborted := True\<rparr>))])) = 2"
proof -
  have xs: "activeXhrs_of full_segment = [KeyRequest, InitSegmentRequest, SegmentRequest]"
    by (simp add: activeXhrs_of_def mediaSegmentRequest_def full_segment_def example_segment_def
          example_key_def example_map_def)
  have k: "handleKeyResponse full_segment True key_response =
             Inr (handleErrors True key_response, full_segment)"
    and i: "handleInitSegmentResponse full_segment False (example_request\<lparr>aborted := True\<rparr>) =
             Inr (handleErrors False (example_request\<lparr>aborted := True\<rparr>), full_segment)"
    and e: "handleErrors True key_response \<noteq> None"
      "handleErrors False (example_request\<lparr>aborted := True\<rparr>) \<noteq> None"
    by (simp_all add: handleKeyResponse_def handleInitSegmentResponse_def handleErrors_def
          key_response_def example_request_def)
  from e obtain e1 e2 where e12: "handleErrors True key_response = Some e1"
    "handleErrors False (example_request\<lparr>aborted := True\<rparr>) = Some e2"
    by auto
  show ?thesis
    unfolding xs
    by (simp add: run_def step_def finish_def start_def k i e12 waitForCompletion_def
          abortAll_def Let_def)
qed

text \<open>
  Claim C8, amended. When a request completes with an error, that call of the tracker
  calls \<^verbatim>\<open>abort()\<close> exactly once on every tracked request (the failed one and those
  already finished included), so over the calls of one invocation a request receives
  one cancellation call for each error completion. The error is appended to the
  accumulator before the hand-off decision: when the call is the last one, the decision
  takes the error branch and reports the most important error of the accumulator with
  this error in it. The requests of a descriptor are tracked once each.
\<close>

theorem error_completion_aborts_every_request:
  "(\<exists>rest. snd (snd (snd (waitForCompletion P xs now (tr, d) (Some e) segment))) =
             abortAll xs @ rest \<and>
           filter is_abort rest = [] \<and>
           (count tr + 1 \<noteq> length xs \<longrightarrow> rest = []) \<and>
           (count tr + 1 = length xs \<longrightarrow>
              (\<exists>w. getMostImportantError (errors tr @ [e]) = Inr w \<and>
                   rest = [DoneFn (Some w) (segment\<lparr>endOfAllRequests := Some now\<rparr>) None]))) \<and>
   count_list (snd (snd (snd (waitForCompletion P xs now (tr, d) (Some e) segment))))
     (XhrAbort x) = count_list xs x \<and>
   errors (fst (waitForCompletion P xs now (tr, d) (Some e) segment)) = errors tr @ [e] \<and>
   count_list (concat (map snd (callbacks P xs (tr, d) cbs))) (XhrAbort x) =
     length (errors_of cbs) * count_list xs x \<and>
   distinct (activeXhrs_of segment0) \<and>
   (x \<in> set (activeXhrs_of segment0) \<longrightarrow> count_list (activeXhrs_of segment0) x = 1)"
proof (intro conjI impI)
  show "\<exists>rest. snd (snd (snd (waitForCompletion P xs now (tr, d) (Some e) segment))) =
             abortAll xs @ rest \<and>
           filter is_abort rest = [] \<and>
           (count tr + 1 \<noteq> length xs \<longrightarrow> rest = []) \<and>
           (count tr + 1 = length xs \<longrightarrow>
              (\<exists>w. getMostImportantError (errors tr @ [e]) = Inr w \<and>
                   rest = [DoneFn (Some w) (segment\<lparr>endOfAllRequests := Some now\<rparr>) None]))"
  proof (cases "count tr + 1 = length xs")
    case False
    from waitForCompletion_not_last [OF False, of P now d "Some e" segment]
    have "snd (snd (snd (waitForCompletion P xs now (tr, d) (Some e) segment))) =
            abortAll xs @ []"
      by simp
    with False show ?thesis by (intro exI [of _ "[]"]) simp
  next
    case True
    have ne: "errors tr @ [e] \<noteq> []" by simp
    from waitForCompletion_last_error [OF True _ ne, of "Some e" P now d segment]
    obtain w where w: "getMostImportantError (errors tr @ [e]) = Inr w"
      and r: "snd (snd (snd (waitForCompletion P xs now (tr, d) (Some e) segment))) =
                abortAll xs @ [DoneFn (Some w) (segment\<lparr>endOfAllRequests := Some now\<rparr>) None]"
      by auto
    from True w r show ?thesis
      by (intro exI [of _ "[DoneFn (Some w) (segment\<lparr>endOfAllRequests := Some now\<rparr>) None]"])
        simp
  qed
  show "count_list (snd (snd (snd (waitForCompletion P xs now (tr, d) (Some e) segment))))
     (XhrAbort x) = count_list xs x"
    by (simp add: waitForCompletion_abort_count)
  show "errors (fst (waitForCompletion P xs now (tr, d) (Some e) segment)) = errors tr @ [e]"
    by (simp add: waitForCompletion_tracker)
  show "count_list (concat (map snd (callbacks P xs (tr, d) cbs))) (XhrAbort x) =
     length (errors_of cbs) * count_list xs x"
    by (rule callbacks_abort_count)
  show "distinct (activeXhrs_of segment0)" by (rule activeXhrs_of_distinct)
  assume "x \<in> set (activeXhrs_of segment0)"
  then show "count_list (activeXhrs_of segment0) x = 1"
    using activeXhrs_of_distinct [of segment0] by (simp add: distinct_count_one)
qed

theorem error_completion_aborts_every_request_witness:
  "snd (snd (snd (waitForCompletion example_parser [KeyRequest, SegmentRequest] 10
      (\<lparr>errors = [], count = 0\<rparr>, example_decrypter) (Some (example_error False False))
      example_segment))) = abortAll [KeyRequest, SegmentRequest] \<and>
   (\<exists>w. getMostImportantError [example_error False False, example_error False True] = Inr w \<and>
        snd (snd (snd (waitForCompletion example_parser [KeyRequest, SegmentRequest] 20
          (\<lparr>errors = [example_error False False], count = 1\<rparr>, example_decrypter)
          (Some (example_error False True)) example_segment))) =
        abortAll [KeyRequest, SegmentRequest] @
        [DoneFn (Some w) (example_segment\<lparr>endOfAllRequests := Some 20\<rparr>) None]) \<and>
   count_list (activeXhrs_of full_segment) SegmentRequest = 1"
proof -
  note th = error_completion_aborts_every_request
  have 1: "snd (snd (snd (waitForCompletion example_parser [KeyRequest, SegmentRequest] 10
      (\<lparr>errors = [], count = 0\<rparr>, example_decrypter) (Some (example_error False False))
      example_segment))) = abortAll [KeyRequest, SegmentRequest]"
    using th [THEN conjunct1, of example_parser "[KeyRequest, SegmentRequest]" 10
      "\<lparr>errors = [], count = 0\<rparr>" example_decrypter "example_error False False" example_segment]
    by auto
  have 2: "\<exists>w. getMostImportantError [example_error False False, example_error False True] = Inr w \<and>
        snd (snd (snd (waitForCompletion example_parser [KeyRequest, SegmentRequest] 20
          (\<lparr>errors = [example_error False False], count = 1\<rparr>, example_decrypter)
          (Some (example_error False True)) example_segment))) =
        abortAll [KeyRequest, SegmentRequest] @
        [DoneFn (Some w) (example_segment\<lparr>endOfAllRequests := Some 20\<rparr>) None]"
    using th [THEN conjunct1, of example_parser "[KeyRequest, SegmentRequest]" 20
      "\<lparr>errors = [example_error False False], count = 1\<rparr>" example_decrypter
      "example_error False True" example_segment]
    by auto
  have m: "SegmentRequest \<in> set (activeXhrs_of full_segment)"
    by (simp add: activeXhrs_of_def mediaSegmentRequest_def)
  have 3: "count_list (activeXhrs_of full_segment) SegmentRequest = 1"
    using th [THEN conjunct2, THEN conjunct2, THEN conjunct2, THEN conjunct2, THEN conjunct2,
      of SegmentRequest full_segment] m
    by simp
  from 1 2 3 show ?thesis by (intro conjI)
qed

section \<open>Replies of the decryption worker\<close>

lemma decryptSegment_state:
  assumes "decryptSegment d segment = (d1, s1, acts1)"
  shows "listeners d1 = listeners d @ [requestId segment]"
    and "requestId s1 = requestId segment"
  using assms
  by (auto simp add: decryptSegment_def Let_def split: option.splits prod.splits)

lemma step_worker_other:
  assumes "source r \<noteq> requestId (p_segment s)"
  shows "step P xs s (t, WorkerMessage r) = s"
  using assms by (simp add: step_def decryptionHandler_other)

lemma step_worker_unregistered:
  assumes "requestId (p_segment s) \<notin> set (listeners (p_decrypter s))"
  shows "step P xs s (t, WorkerMessage r) = s"
  using assms by (simp add: step_def)

lemma run_worker_others:
  assumes "\<forall>e\<in>set rs. source (snd e) \<noteq> requestId (p_segment s)"
  shows "run P xs s (map (\<lambda>e. (fst e, WorkerMessage (snd e))) rs) = s"
  using assms
proof (induction rs)
  case Nil
  show ?case by (simp add: run_def)
next
  case (Cons a rs)
  then have "step P xs s (fst a, WorkerMessage (snd a)) = s"
    by (simp add: step_worker_other)
  with Cons show ?case by (simp add: run_def)
qed

lemma run_worker_unregistered:
  assumes "requestId (p_segment s) \<notin> set (listeners (p_decrypter s))"
  shows "run P xs s (map (\<lambda>e. (fst e, WorkerMessage (snd e))) rs) = s"
proof (induction rs)
  case Nil
  show ?case by (simp add: run_def)
next
  case (Cons a rs)
  from assms have "step P xs s (fst a, WorkerMessage (snd a)) = s"
    by (rule step_worker_unregistered)
  with Cons show ?case by (simp add: run_def)
qed

lemma run_append: "run P xs s (as @ bs) = run P xs (run P xs s as) bs"
  by (simp add: run_def)

lemma run_single: "run P xs s [e] = step P xs s e"
  by (simp add: run_def)

text \<open>
  Claim C7. After \<^verbatim>\<open>decryptSegment\<close> has registered its listener (on a channel that has
  no other listener for the segment's request id), replies whose \<^verbatim>\<open>source\<close> is not the
  segment's request id leave the descriptor, the listener and the recorded calls as they
  are. The first reply whose \<^verbatim>\<open>source\<close> matches, carrying a view that fits its buffer,
  removes the listener, installs that view as \<^verbatim>\<open>segment.bytes\<close> and calls the parse
  dispatcher once with \<^verbatim>\<open>isPartial = false\<close>. Every later reply, matching or not, is no
  longer delivered to the listener, so the dispatch happens exactly once.
\<close>

theorem decryptionHandler_matches_once:
  assumes "requestId segment \<notin> set (listeners d)"
    and "decryptSegment d segment = (d1, s1, acts1)"
    and "st = \<lparr>p_segment = s1, p_tracker = tr, p_decrypter = d1, p_trace = acts0\<rparr>"
    and "\<forall>e\<in>set before. source (snd e) \<noteq> requestId segment"
    and "source r = requestId segment"
    and "byteOffset r + byteLength r \<le> length (decrypted_bytes r)"
    and "view = \<lparr>buffer = decrypted_bytes r, u8_byteOffset = byteOffset r,
                  u8_length = byteLength r\<rparr>"
    and "st' = run P xs st (map (\<lambda>e. (fst e, WorkerMessage (snd e))) (before @ [(t, r)]))"
  shows "listeners d1 = listeners d @ [requestId segment] \<and>
         run P xs st (map (\<lambda>e. (fst e, WorkerMessage (snd e))) before) = st \<and>
         listeners (p_decrypter st') = listeners d \<and>
         bytes (p_segment st') = Some view \<and>
         contents view = take (byteLength r) (drop (byteOffset r) (decrypted_bytes r)) \<and>
         p_trace st' = acts0 @ RemoveEventListener (requestId segment) #
           snd (snd (handleDecryptedBytes P (s1\<lparr>bytes := Some view\<rparr>) (Some view) False True)) \<and>
         length (filter (is_dispatch False) (drop (length acts0) (p_trace st'))) = 1 \<and>
         filter (is_dispatch True) (drop (length acts0) (p_trace st')) = [] \<and>
         run P xs st (map (\<lambda>e. (fst e, WorkerMessage (snd e))) (before @ [(t, r)] @ later)) = st'"
proof -
  let ?wm = "\<lambda>e. (fst e, WorkerMessage (snd e))"
  let ?rid = "requestId segment"
  note ds = decryptSegment_state [OF assms(2)]
  have seg: "p_segment st = s1" and dec: "p_decrypter st = d1" and tr0: "p_trace st = acts0"
    by (simp_all add: assms(3))
  have b: "run P xs st (map ?wm before) = st"
    using assms(4) by (intro run_worker_others) (simp add: seg ds(2))
  obtain n s2 acts where H:
    "handleDecryptedBytes P (s1\<lparr>bytes := Some view\<rparr>) (Some view) False True = (n, s2, acts)"
    using prod_cases3 by blast
  have m: "source r = requestId s1" using assms(5) ds(2) by simp
  note dh = decryptionHandler_match [OF m assms(6) assms(7) H, of d1]
  have reg: "requestId (p_segment st) \<in> set (listeners (p_decrypter st))"
    by (simp add: seg dec ds)
  have rm: "remove1 ?rid (listeners d1) = listeners d"
    using assms(1) by (simp add: ds(1) remove1_append)
  have st': "st' = step P xs st (t, WorkerMessage r)"
    unfolding assms(8) by (simp add: run_append b run_single)
  have res: "st' = st\<lparr>p_segment := s2,
                      p_decrypter := d1\<lparr>listeners := listeners d\<rparr>,
                      p_trace := acts0 @ RemoveEventListener ?rid # acts\<rparr>"
    unfolding st' using reg
    by (simp add: step_def seg dec tr0 dh ds(2) rm)
  from handleDecryptedBytes_segment(1) [OF H] obtain bx
    where s2: "s2 = s1\<lparr>bytes := Some view, boxes := bx\<rparr>"
    by auto
  have l: "listeners (p_decrypter st') = listeners d" by (simp add: res)
  have bt: "bytes (p_segment st') = Some view" by (simp add: res s2)
  have ct: "contents view = take (byteLength r) (drop (byteOffset r) (decrypted_bytes r))"
    by (simp add: contents_def assms(7))
  have trc: "p_trace st' = acts0 @ RemoveEventListener ?rid #
      snd (snd (handleDecryptedBytes P (s1\<lparr>bytes := Some view\<rparr>) (Some view) False True))"
    by (simp add: res H)
  have dr: "drop (length acts0) (p_trace st') = RemoveEventListener ?rid # acts"
    by (simp add: res)
  have one: "length (filter (is_dispatch False) (drop (length acts0) (p_trace st'))) = 1"
    unfolding dr using handleDecryptedBytes_kinds(4) [OF H] by simp
  have none: "filter (is_dispatch True) (drop (length acts0) (p_trace st')) = []"
    unfolding dr using handleDecryptedBytes_kinds(5) [OF H] by simp
  have unreg: "requestId (p_segment st') \<notin> set (listeners (p_decrypter st'))"
    using assms(1) by (simp add: res s2 ds(2))
  have "run P xs st (map ?wm (before @ [(t, r)] @ later)) =
          run P xs st' (map ?wm later)"
    unfolding assms(8) by (simp add: run_def)
  also have "\<dots> = st'" by (rule run_worker_unregistered [OF unreg])
  finally have after: "run P xs st (map ?wm (before @ [(t, r)] @ later)) = st'" .
  from ds(1) b l bt ct trc one none after show ?thesis by (intro conjI)
qed

theorem decryptionHandler_matches_once_witness:
  "run example_parser [KeyRequest, SegmentRequest] decrypting_state
     (map (\<lambda>e. (fst e, WorkerMessage (snd e))) [(1, other_reply)]) = decrypting_state \<and>
   listeners (p_decrypter (run example_parser [KeyRequest, SegmentRequest] decrypting_state
     (map (\<lambda>e. (fst e, WorkerMessage (snd e))) ([(1, other_reply)] @ [(2, matching_reply)])))) = [] \<and>
   bytes (p_segment (run example_parser [KeyRequest, SegmentRequest] decrypting_state
     (map (\<lambda>e. (fst e, WorkerMessage (snd e))) ([(1, other_reply)] @ [(2, matching_reply)])))) =
     Some \<lparr>buffer = [9, 8, 7, 6], u8_byteOffset = 1, u8_length = 2\<rparr> \<and>
   length (filter (is_dispatch False)
     (p_trace (run example_parser [KeyRequest, SegmentRequest] decrypting_state
       (map (\<lambda>e. (fst e, WorkerMessage (snd e))) ([(1, other_reply)] @ [(2, matching_reply)]))))) = 1 \<and>
   run example_parser [KeyRequest, SegmentRequest] decrypting_state
     (map (\<lambda>e. (fst e, WorkerMessage (snd e)))
        ([(1, other_reply)] @ [(2, matching_reply)] @ [(3, matching_reply), (4, other_reply)])) =
   run example_parser [KeyRequest, SegmentRequest] decrypting_state
     (map (\<lambda>e. (fst e, WorkerMessage (snd e))) ([(1, other_reply)] @ [(2, matching_reply)]))"
proof -
  let ?X = "decryptSegment example_decrypter encrypted_segment"
  have h1: "requestId encrypted_segment \<notin> set (listeners example_decrypter)"
    by (simp add: example_decrypter_def)
  have h2: "?X = (fst ?X, fst (snd ?X), snd (snd ?X))" by simp
  have h3: "decrypting_state =
      \<lparr>p_segment = fst (snd ?X), p_tracker = \<lparr>errors = [], count = 2\<rparr>,
       p_decrypter = fst ?X, p_trace = []\<rparr>"
    by (simp add: decrypting_state_def)
  have h4: "\<forall>e\<in>set [(1 :: int, other_reply)]. source (snd e) \<noteq> requestId encrypted_segment"
    by (simp add: other_reply_def encrypted_segment_def example_segment_def)
  have h5: "source matching_reply = requestId encrypted_segment"
    by (simp add: matching_reply_def encrypted_segment_def example_segment_def)
  have h6: "byteOffset matching_reply + byteLength matching_reply \<le>
              length (decrypted_bytes matching_reply)"
    by (simp add: matching_reply_def)
  note th = decryptionHandler_matches_once [OF h1 h2 h3 h4 h5 h6 refl refl,
    where P = example_parser and xs = "[KeyRequest, SegmentRequest]" and t = 2
      and later = "[(3, matching_reply), (4, other_reply)]"]
  have 1: "run example_parser [KeyRequest, SegmentRequest] decrypting_state
     (map (\<lambda>e. (fst e, WorkerMessage (snd e))) [(1, other_reply)]) = decrypting_state"
    by (rule th [THEN conjunct2, THEN conjunct1])
  have 2: "listeners (p_decrypter (run example_parser [KeyRequest, SegmentRequest] decrypting_state
     (map (\<lambda>e. (fst e, WorkerMessage (snd e))) ([(1, other_reply)] @ [(2, matching_reply)])))) = []"
    using th [THEN conjunct2, THEN conjunct2, THEN conjunct1]
    by (simp add: example_decrypter_def)
  have 3: "bytes (p_segment (run example_parser [KeyRequest, SegmentRequest] decrypting_state
     (map (\<lambda>e. (fst e, WorkerMessage (snd e))) ([(1, other_reply)] @ [(2, matching_reply)])))) =
     Some \<lparr>buffer = [9, 8, 7, 6], u8_byteOffset = 1, u8_length = 2\<rparr>"
    using th [THEN conjunct2, THEN conjunct2, THEN conjunct2, THEN conjunct1]
    by (simp add: matching_reply_def)
  have 4: "length (filter (is_dispatch False)
     (p_trace (run example_parser [KeyRequest, SegmentRequest] decrypting_state
       (map (\<lambda>e. (fst e, WorkerMessage (snd e))) ([(1, other_reply)] @ [(2, matching_reply)]))))) = 1"
    using th [THEN conjunct2, THEN conjunct2, THEN conjunct2, THEN conjunct2, THEN conjunct2,
      THEN conjunct2, THEN conjunct1]
    by simp
  have 5: "run example_parser [KeyRequest, SegmentRequest] decrypting_state
     (map (\<lambda>e. (fst e, WorkerMessage (snd e)))
        ([(1, other_reply)] @ [(2, matching_reply)] @ [(3, matching_reply), (4, other_reply)])) =
   run example_parser [KeyRequest, SegmentRequest] decrypting_state
     (map (\<lambda>e. (fst e, WorkerMessage (snd e))) ([(1, other_reply)] @ [(2, matching_reply)]))"
    by (rule th [THEN conjunct2, THEN conjunct2, THEN conjunct2, THEN conjunct2, THEN conjunct2,
      THEN conjunct2, THEN conjunct2, THEN conjunct2])
  from 1 2 3 4 5 show ?thesis by (intro conjI)
qed

section \<open>Progress events that do not parse\<close>

lemma step_progress_skip:
  assumes "key (p_segment s) \<noteq> None \<or>
           (\<exists>m. map_info (p_segment s) = Some m \<and> map_bytes m = None)"
  shows "\<exists>st. step P xs s (t, Progress pe) =
           s\<lparr>p_segment := (p_segment s)\<lparr>stats := Some st\<rparr>,
             p_trace := p_trace s @ [ProgressFn pe ((p_segment s)\<lparr>stats := Some st\<rparr>)]\<rparr>"
proof -
  from handleProgress_skip [OF assms, of P t pe] obtain st where
    "handleProgress P t (p_segment s) pe =
       ((p_segment s)\<lparr>stats := Some st\<rparr>, [ProgressFn pe ((p_segment s)\<lparr>stats := Some st\<rparr>)])"
    by blast
  then show ?thesis by (intro exI [of _ st]) (simp add: step_def)
qed

lemma run_progress_skip:
  assumes "key (p_segment s) \<noteq> None \<or>
           (\<exists>m. map_info (p_segment s) = Some m \<and> map_bytes m = None)"
  shows "\<exists>st added.
           run P xs s (map (\<lambda>e. (fst e, Progress (snd e))) pes) =
             s\<lparr>p_segment := (p_segment s)\<lparr>stats := st\<rparr>, p_trace := p_trace s @ added\<rparr> \<and>
           (\<forall>a\<in>set added. \<exists>pe sg. a = ProgressFn pe sg)"
  using assms
proof (induction pes arbitrary: s)
  case Nil
  have "run P xs s [] = s\<lparr>p_segment := (p_segment s)\<lparr>stats := stats (p_segment s)\<rparr>,
                          p_trace := p_trace s @ []\<rparr>"
    by (simp add: run_def)
  then show ?case by (intro exI [of _ "stats (p_segment s)"] exI [of _ "[]"]) simp
next
  case (Cons e pes)
  let ?pr = "\<lambda>e. (fst e, Progress (snd e))"
  from step_progress_skip [OF Cons.prems, of P xs "fst e" "snd e"] obtain st1 where
    s1: "step P xs s (fst e, Progress (snd e)) =
           s\<lparr>p_segment := (p_segment s)\<lparr>stats := Some st1\<rparr>,
             p_trace := p_trace s @ [ProgressFn (snd e) ((p_segment s)\<lparr>stats := Some st1\<rparr>)]\<rparr>"
    by blast
  let ?s1 = "step P xs s (fst e, Progress (snd e))"
  have skip1: "key (p_segment ?s1) \<noteq> None \<or>
           (\<exists>m. map_info (p_segment ?s1) = Some m \<and> map_bytes m = None)"
    using Cons.prems by (simp add: s1)
  from Cons.IH [OF skip1] obtain st added where
    r: "run P xs ?s1 (map ?pr pes) =
          ?s1\<lparr>p_segment := (p_segment ?s1)\<lparr>stats := st\<rparr>, p_trace := p_trace ?s1 @ added\<rparr>"
    and a: "\<forall>a\<in>set added. \<exists>pe sg. a = ProgressFn pe sg"
    by blast
  have "run P xs s (map ?pr (e # pes)) = run P xs ?s1 (map ?pr pes)"
    by (simp add: run_def)
  also have "\<dots> = s\<lparr>p_segment := (p_segment s)\<lparr>stats := st\<rparr>,
                     p_trace := p_trace s @
                       (ProgressFn (snd e) ((p_segment s)\<lparr>stats := Some st1\<rparr>) # added)\<rparr>"
    unfolding r by (simp add: s1)
  finally have "run P xs s (map ?pr (e # pes)) =
      s\<lparr>p_segment := (p_segment s)\<lparr>stats := st\<rparr>,
        p_trace := p_trace s @
          (ProgressFn (snd e) ((p_segment s)\<lparr>stats := Some st1\<rparr>) # added)\<rparr>" .
  moreover have "\<forall>a\<in>set (ProgressFn (snd e) ((p_segment s)\<lparr>stats := Some st1\<rparr>) # added).
      \<exists>pe sg. a = ProgressFn pe sg"
    using a by simp
  ultimately show ?case by blast
qed

lemma progress_calls_only:
  assumes "\<forall>a\<in>set added. \<exists>pe sg. a = ProgressFn pe sg"
  shows "filter (is_dispatch p) added = []" and "DataFn sg c \<notin> set added"
  using assms by (auto simp add: filter_empty_conv)

lemma finish_not_last:
  assumes "count (p_tracker s) + 1 \<noteq> length xs"
  shows "finish P xs now s (Inr (None, sg)) =
           s\<lparr>p_segment := sg,
             p_tracker := \<lparr>errors = errors (p_tracker s), count = count (p_tracker s) + 1\<rparr>\<rparr>"
  using assms by (cases s) (simp add: finish_def waitForCompletion_not_last)

lemma finish_last_parse:
  assumes "count (p_tracker s) + 1 = length xs" and "errors (p_tracker s) = []"
    and "encryptedBytes sg = None" and "map_info sg = Some m"
  shows "\<exists>calls. p_trace (finish P xs now s (Inr (None, sg))) =
           p_trace s @ CallInspectMp4 (bytes sg) True # calls"
  using assms
  by (simp add: finish_def waitForCompletion_def handleDecryptedBytes_def
        parseMp4AndNotify_def Let_def)

lemma finish_last_decrypt:
  assumes "count (p_tracker s) + 1 = length xs" and "errors (p_tracker s) = []"
    and "encryptedBytes sg = Some enc" and "key sg = Some k" and "key_bytes k = Some kb"
  shows "p_trace (finish P xs now s (Inr (None, sg))) =
           p_trace s @ [AddEventListener (requestId sg),
                        PostMessage \<lparr>msg_source = requestId sg, msg_encrypted = enc,
                                     msg_key = kb, msg_iv = key_iv k\<rparr>]"
  using assms
  by (simp add: finish_def waitForCompletion_def decryptSegment_def Let_def)

lemma handleSegmentResponse_ok:
  assumes "handleErrors error request = None"
  shows "handleSegmentResponse segment error request =
           (None,
            if key segment \<noteq> None
            then segment\<lparr>stats := Some (getRequestStats request),
                         encryptedBytes := Some (Uint8Array (stringToArrayBuffer
                           (substring (responseText request) (or0 (lastReachedChar segment)))))\<rparr>
            else segment\<lparr>stats := Some (getRequestStats request),
                         bytes := Some (Uint8Array (stringToArrayBuffer
                           (substring (responseText request) (or0 (lastReachedChar segment)))))\<rparr>)"
  using assms by (simp add: handleSegmentResponse_def byteLength_of_text_def Let_def)

lemma handleInitSegmentResponse_ok:
  assumes "handleErrors error request = None" and "length (response request) \<noteq> 0"
    and "map_info segment = Some m"
  shows "handleInitSegmentResponse segment error request =
           Inr (None, segment\<lparr>map_info :=
                        Some (m\<lparr>map_bytes := Some (Uint8Array (response request))\<rparr>)\<rparr>)"
  using assms by (simp add: handleInitSegmentResponse_def Let_def)

text \<open>
  The progress handler of the module \<^verbatim>\<open>src/media-segment-request.js\<close>. On a descriptor
  with a key, or with an init segment whose bytes are not fetched yet, a progress event
  does not call the parse dispatcher: the handler only merges the statistics and calls
  \<^verbatim>\<open>progressFn\<close>, so \<^verbatim>\<open>lastReachedChar\<close> and the parser state \<^verbatim>\<open>boxes\<close> stay as they
  are, after one such event and after any number of them.

  The media-segment response that completes after these events (no time-out, abort or
  transport error) takes the whole text from that unchanged cursor onward, the whole
  response when the cursor is 0, and the completion tracker hands exactly these bytes
  on. When the response is not the last of the segment's requests, it stores them as
  \<^verbatim>\<open>encryptedBytes\<close> on a descriptor with a key and as \<^verbatim>\<open>bytes\<close> otherwise, and makes
  no call. When it is the last on a descriptor whose key is fetched, the tracker
  posts them to the decryption worker. On a descriptor without a key the init-segment
  response is still due: whether it comes after the media-segment response or before
  it, the last of the two makes the tracker hand the bytes to the box parser, with
  \<^verbatim>\<open>isEndOfSegment\<close> true.
\<close>

lemma handleProgress_defers_parsing:
  assumes "key segment \<noteq> None \<or> (\<exists>m. map_info segment = Some m \<and> map_bytes m = None)"
    and "p_segment s = segment"
    and "s' = run P xs s (map (\<lambda>e. (fst e, Progress (snd e))) pes)"
    and "rest_of_text = stringToArrayBuffer
           (substring (responseText request) (or0 (lastReachedChar segment)))"
    and "s'' = step P xs s' (t, SegmentResponse error request)"
  shows "(\<exists>st. handleProgress P now segment event =
            (segment\<lparr>stats := Some st\<rparr>, [ProgressFn event (segment\<lparr>stats := Some st\<rparr>)])) \<and>
         filter (is_dispatch True) (snd (handleProgress P now segment event)) = [] \<and>
         filter (is_dispatch False) (snd (handleProgress P now segment event)) = [] \<and>
         lastReachedChar (fst (handleProgress P now segment event)) = lastReachedChar segment \<and>
         boxes (fst (handleProgress P now segment event)) = boxes segment \<and>
         (\<exists>st. p_segment s' = segment\<lparr>stats := st\<rparr>) \<and>
         lastReachedChar (p_segment s') = lastReachedChar segment \<and>
         boxes (p_segment s') = boxes segment \<and>
         filter (is_dispatch True) (drop (length (p_trace s)) (p_trace s')) = [] \<and>
         filter (is_dispatch False) (drop (length (p_trace s)) (p_trace s')) = [] \<and>
         (handleErrors error request = None \<longrightarrow>
            (count (p_tracker s) + 1 \<noteq> length xs \<longrightarrow>
               p_trace s'' = p_trace s' \<and>
               lastReachedChar (p_segment s'') = lastReachedChar segment \<and>
               (if key segment = None then bytes (p_segment s'')
                else encryptedBytes (p_segment s'')) = Some (Uint8Array rest_of_text)) \<and>
            (count (p_tracker s) + 1 = length xs \<and> errors (p_tracker s) = [] \<and>
             key segment = Some k \<and> key_bytes k = Some kb \<longrightarrow>
               p_trace s'' = p_trace s' @
                 [AddEventListener (requestId segment),
                  PostMessage \<lparr>msg_source = requestId segment,
                               msg_encrypted = Uint8Array rest_of_text,
                               msg_key = kb, msg_iv = key_iv k\<rparr>]) \<and>
            (count (p_tracker s) + 2 = length xs \<and> errors (p_tracker s) = [] \<and>
             key segment = None \<and> encryptedBytes segment = None \<and>
             handleErrors error2 request2 = None \<and> length (response request2) \<noteq> 0 \<longrightarrow>
               (\<exists>calls. p_trace (step P xs s'' (t2, InitSegmentResponse error2 request2)) =
                  p_trace s' @ CallInspectMp4 (Some (Uint8Array rest_of_text)) True # calls) \<and>
               (\<exists>calls. p_trace (step P xs (step P xs s' (t2, InitSegmentResponse error2 request2))
                                   (t, SegmentResponse error request)) =
                  p_trace s' @ CallInspectMp4 (Some (Uint8Array rest_of_text)) True # calls))) \<and>
         (lastReachedChar segment = Num 0 \<longrightarrow>
            rest_of_text = stringToArrayBuffer (responseText request))"
proof -
  from handleProgress_skip [OF assms(1), of P now event] obtain st where
    h: "handleProgress P now segment event =
          (segment\<lparr>stats := Some st\<rparr>, [ProgressFn event (segment\<lparr>stats := Some st\<rparr>)])"
    by blast
  have skip: "key (p_segment s) \<noteq> None \<or>
           (\<exists>m. map_info (p_segment s) = Some m \<and> map_bytes m = None)"
    using assms(1) by (simp add: assms(2))
  from run_progress_skip [OF skip, of P xs pes] obtain st' added where
    r: "s' = s\<lparr>p_segment := segment\<lparr>stats := st'\<rparr>, p_trace := p_trace s @ added\<rparr>"
    and a: "\<forall>a\<in>set added. \<exists>pe sg. a = ProgressFn pe sg"
    unfolding assms(2) assms(3) by blast
  have sg: "p_segment s' = segment\<lparr>stats := st'\<rparr>" by (simp add: r)
  have tr: "p_tracker s' = p_tracker s" by (simp add: r)
  have dr: "drop (length (p_trace s)) (p_trace s') = added" by (simp add: r)
  have 1: "\<exists>st. handleProgress P now segment event =
            (segment\<lparr>stats := Some st\<rparr>, [ProgressFn event (segment\<lparr>stats := Some st\<rparr>)])"
    using h by blast
  have 2: "filter (is_dispatch True) (snd (handleProgress P now segment event)) = []"
    and 3: "filter (is_dispatch False) (snd (handleProgress P now segment event)) = []"
    and 4: "lastReachedChar (fst (handleProgress P now segment event)) = lastReachedChar segment"
    and 5: "boxes (fst (handleProgress P now segment event)) = boxes segment"
    by (simp_all add: h)
  have 6: "\<exists>st. p_segment s' = segment\<lparr>stats := st\<rparr>" using sg by blast
  have 7: "lastReachedChar (p_segment s') = lastReachedChar segment"
    and 8: "boxes (p_segment s') = boxes segment"
    by (simp_all add: sg)
  have 9: "filter (is_dispatch True) (drop (length (p_trace s)) (p_trace s')) = []"
    and 10: "filter (is_dispatch False) (drop (length (p_trace s)) (p_trace s')) = []"
    unfolding dr by (rule progress_calls_only(1) [OF a])+
  let ?final = "if key segment \<noteq> None
            then segment\<lparr>stats := Some (getRequestStats request),
                         encryptedBytes := Some (Uint8Array rest_of_text)\<rparr>
            else segment\<lparr>stats := Some (getRequestStats request),
                         bytes := Some (Uint8Array rest_of_text)\<rparr>"
  have 11: "handleErrors error request = None \<longrightarrow>
            (count (p_tracker s) + 1 \<noteq> length xs \<longrightarrow>
               p_trace s'' = p_trace s' \<and>
               lastReachedChar (p_segment s'') = lastReachedChar segment \<and>
               (if key segment = None then bytes (p_segment s'')
                else encryptedBytes (p_segment s'')) = Some (Uint8Array rest_of_text)) \<and>
            (count (p_tracker s) + 1 = length xs \<and> errors (p_tracker s) = [] \<and>
             key segment = Some k \<and> key_bytes k = Some kb \<longrightarrow>
               p_trace s'' = p_trace s' @
                 [AddEventListener (requestId segment),
                  PostMessage \<lparr>msg_source = requestId segment,
                               msg_encrypted = Uint8Array rest_of_text,
                               msg_key = kb, msg_iv = key_iv k\<rparr>]) \<and>
            (count (p_tracker s) + 2 = length xs \<and> errors (p_tracker s) = [] \<and>
             key segment = None \<and> encryptedBytes segment = None \<and>
             handleErrors error2 request2 = None \<and> length (response request2) \<noteq> 0 \<longrightarrow>
               (\<exists>calls. p_trace (step P xs s'' (t2, InitSegmentResponse error2 request2)) =
                  p_trace s' @ CallInspectMp4 (Some (Uint8Array rest_of_text)) True # calls) \<and>
               (\<exists>calls. p_trace (step P xs (step P xs s' (t2, InitSegmentResponse error2 request2))
                                   (t, SegmentResponse error request)) =
                  p_trace s' @ CallInspectMp4 (Some (Uint8Array rest_of_text)) True # calls))"
  proof (intro impI)
    assume ok: "handleErrors error request = None"
    have hs: "handleSegmentResponse (p_segment s') error request = (None, ?final)"
      unfolding handleSegmentResponse_ok [OF ok] sg by (simp add: assms(4))
    have st2: "s'' = finish P xs t s' (Inr (None, ?final))"
      unfolding assms(5) by (simp add: step_def hs)
    have a: "count (p_tracker s) + 1 \<noteq> length xs \<longrightarrow>
               p_trace s'' = p_trace s' \<and>
               lastReachedChar (p_segment s'') = lastReachedChar segment \<and>
               (if key segment = None then bytes (p_segment s'')
                else encryptedBytes (p_segment s'')) = Some (Uint8Array rest_of_text)"
    proof
      assume "count (p_tracker s) + 1 \<noteq> length xs"
      then have nl: "count (p_tracker s') + 1 \<noteq> length xs" by (simp add: tr)
      show "p_trace s'' = p_trace s' \<and>
               lastReachedChar (p_segment s'') = lastReachedChar segment \<and>
               (if key segment = None then bytes (p_segment s'')
                else encryptedBytes (p_segment s'')) = Some (Uint8Array rest_of_text)"
        unfolding st2 finish_not_last [OF nl] by simp
    qed
    have b: "count (p_tracker s) + 1 = length xs \<and> errors (p_tracker s) = [] \<and>
             key segment = Some k \<and> key_bytes k = Some kb \<longrightarrow>
               p_trace s'' = p_trace s' @
                 [AddEventListener (requestId segment),
                  PostMessage \<lparr>msg_source = requestId segment,
                               msg_encrypted = Uint8Array rest_of_text,
                               msg_key = kb, msg_iv = key_iv k\<rparr>]"
    proof
      assume hyp: "count (p_tracker s) + 1 = length xs \<and> errors (p_tracker s) = [] \<and>
             key segment = Some k \<and> key_bytes k = Some kb"
      then have l: "count (p_tracker s') + 1 = length xs" and e: "errors (p_tracker s') = []"
        and k: "key segment = Some k" and kb: "key_bytes k = Some kb"
        by (simp_all add: tr)
      have f: "?final = segment\<lparr>stats := Some (getRequestStats request),
                         encryptedBytes := Some (Uint8Array rest_of_text)\<rparr>"
        using k by simp
      have "p_trace (finish P xs t s' (Inr (None, ?final))) =
          p_trace s' @ [AddEventListener (requestId ?final),
                        PostMessage \<lparr>msg_source = requestId ?final,
                                     msg_encrypted = Uint8Array rest_of_text,
                                     msg_key = kb, msg_iv = key_iv k\<rparr>]"
        by (rule finish_last_decrypt [OF l e _ _ kb]) (simp_all add: f k)
      then show "p_trace s'' = p_trace s' @
                 [AddEventListener (requestId segment),
                  PostMessage \<lparr>msg_source = requestId segment,
                               msg_encrypted = Uint8Array rest_of_text,
                               msg_key = kb, msg_iv = key_iv k\<rparr>]"
        unfolding st2 by (simp add: f)
    qed
    have c: "count (p_tracker s) + 2 = length xs \<and> errors (p_tracker s) = [] \<and>
             key segment = None \<and> encryptedBytes segment = None \<and>
             handleErrors error2 request2 = None \<and> length (response request2) \<noteq> 0 \<longrightarrow>
               (\<exists>calls. p_trace (step P xs s'' (t2, InitSegmentResponse error2 request2)) =
                  p_trace s' @ CallInspectMp4 (Some (Uint8Array rest_of_text)) True # calls) \<and>
               (\<exists>calls. p_trace (step P xs (step P xs s' (t2, InitSegmentResponse error2 request2))
                                   (t, SegmentResponse error request)) =
                  p_trace s' @ CallInspectMp4 (Some (Uint8Array rest_of_text)) True # calls)"
    proof (intro impI conjI)
      assume hyp: "count (p_tracker s) + 2 = length xs \<and> errors (p_tracker s) = [] \<and>
             key segment = None \<and> encryptedBytes segment = None \<and>
             handleErrors error2 request2 = None \<and> length (response request2) \<noteq> 0"
      then have l2: "count (p_tracker s') + 2 = length xs" and e: "errors (p_tracker s') = []"
        and k: "key segment = None" and enc: "encryptedBytes segment = None"
        and ok2: "handleErrors error2 request2 = None" and ne: "length (response request2) \<noteq> 0"
        by (simp_all add: tr)
      from k assms(1) obtain m where m: "map_info segment = Some m" by auto
      have nl: "count (p_tracker s') + 1 \<noteq> length xs" using l2 by simp
      let ?fetched = "m\<lparr>map_bytes := Some (Uint8Array (response request2))\<rparr>"
      let ?fb = "segment\<lparr>stats := Some (getRequestStats request),
                         bytes := Some (Uint8Array rest_of_text)\<rparr>"
      have f: "?final = ?fb"
        using k by simp
      have s2: "s'' = s'\<lparr>p_segment := ?fb,
                  p_tracker := \<lparr>errors = errors (p_tracker s'), count = count (p_tracker s') + 1\<rparr>\<rparr>"
        unfolding st2 f by (rule finish_not_last [OF nl])
      have hi: "handleInitSegmentResponse (p_segment s'') error2 request2 =
                  Inr (None, ?fb\<lparr>map_info := Some ?fetched\<rparr>)"
        unfolding s2 by (simp add: handleInitSegmentResponse_ok [OF ok2 ne] m)
      have l: "count (p_tracker s'') + 1 = length xs" and e2: "errors (p_tracker s'') = []"
        using l2 e by (simp_all add: s2)
      have p1: "encryptedBytes (?fb\<lparr>map_info := Some ?fetched\<rparr>) = None"
        using enc by simp
      have p2: "map_info (?fb\<lparr>map_info := Some ?fetched\<rparr>) = Some ?fetched"
        by simp
      from finish_last_parse [OF l e2 p1 p2, of P t2]
      obtain calls where
        "p_trace (finish P xs t2 s'' (Inr (None, ?fb\<lparr>map_info := Some ?fetched\<rparr>))) =
           p_trace s'' @ CallInspectMp4 (bytes (?fb\<lparr>map_info := Some ?fetched\<rparr>)) True # calls"
        by blast
      then have "p_trace (step P xs s'' (t2, InitSegmentResponse error2 request2)) =
           p_trace s' @ CallInspectMp4 (Some (Uint8Array rest_of_text)) True # calls"
        by (simp add: step_def hi) (simp add: s2)
      then show "\<exists>calls. p_trace (step P xs s'' (t2, InitSegmentResponse error2 request2)) =
                  p_trace s' @ CallInspectMp4 (Some (Uint8Array rest_of_text)) True # calls"
        by blast
      let ?sg1 = "segment\<lparr>stats := st', map_info := Some ?fetched\<rparr>"
      let ?s1 = "step P xs s' (t2, InitSegmentResponse error2 request2)"
      have hi1: "handleInitSegmentResponse (p_segment s') error2 request2 = Inr (None, ?sg1)"
        unfolding sg by (simp add: handleInitSegmentResponse_ok [OF ok2 ne] m)
      have s1: "?s1 = s'\<lparr>p_segment := ?sg1,
                  p_tracker := \<lparr>errors = errors (p_tracker s'), count = count (p_tracker s') + 1\<rparr>\<rparr>"
        by (simp add: step_def hi1 finish_not_last [OF nl])
      let ?final1 = "?sg1\<lparr>stats := Some (getRequestStats request),
                          bytes := Some (Uint8Array rest_of_text)\<rparr>"
      have hs1: "handleSegmentResponse (p_segment ?s1) error request = (None, ?final1)"
        unfolding s1 handleSegmentResponse_ok [OF ok] using k by (simp add: assms(4))
      have l1: "count (p_tracker ?s1) + 1 = length xs" and e1: "errors (p_tracker ?s1) = []"
        using l2 e by (simp_all add: s1)
      have q1: "encryptedBytes ?final1 = None" using enc by simp
      have q2: "map_info ?final1 = Some ?fetched" by simp
      from finish_last_parse [OF l1 e1 q1 q2, of P t]
      obtain calls1 where
        "p_trace (finish P xs t ?s1 (Inr (None, ?final1))) =
           p_trace ?s1 @ CallInspectMp4 (bytes ?final1) True # calls1"
        by blast
      then have "p_trace (step P xs ?s1 (t, SegmentResponse error request)) =
           p_trace s' @ CallInspectMp4 (Some (Uint8Array rest_of_text)) True # calls1"
        by (simp add: step_def [of P xs ?s1] hs1) (simp add: s1)
      then show "\<exists>calls. p_trace (step P xs ?s1 (t, SegmentResponse error request)) =
                  p_trace s' @ CallInspectMp4 (Some (Uint8Array rest_of_text)) True # calls"
        by blast
    qed
    from a b c show "(count (p_tracker s) + 1 \<noteq> length xs \<longrightarrow>
               p_trace s'' = p_trace s' \<and>
               lastReachedChar (p_segment s'') = lastReachedChar segment \<and>
               (if key segment = None then bytes (p_segment s'')
                else encryptedBytes (p_segment s'')) = Some (Uint8Array rest_of_text)) \<and>
            (count (p_tracker s) + 1 = length xs \<and> errors (p_tracker s) = [] \<and>
             key segment = Some k \<and> key_bytes k = Some kb \<longrightarrow>
               p_trace s'' = p_trace s' @
                 [AddEventListener (requestId segment),
                  PostMessage \<lparr>msg_source = requestId segment,
                               msg_encrypted = Uint8Array rest_of_text,
                               msg_key = kb, msg_iv = key_iv k\<rparr>]) \<and>
            (count (p_tracker s) + 2 = length xs \<and> errors (p_tracker s) = [] \<and>
             key segment = None \<and> encryptedBytes segment = None \<and>
             handleErrors error2 request2 = None \<and> length (response request2) \<noteq> 0 \<longrightarrow>
               (\<exists>calls. p_trace (step P xs s'' (t2, InitSegmentResponse error2 request2)) =
                  p_trace s' @ CallInspectMp4 (Some (Uint8Array rest_of_text)) True # calls) \<and>
               (\<exists>calls. p_trace (step P xs (step P xs s' (t2, InitSegmentResponse error2 request2))
                                   (t, SegmentResponse error request)) =
                  p_trace s' @ CallInspectMp4 (Some (Uint8Array rest_of_text)) True # calls))"
      by (intro conjI)
  qed
  have 12: "lastReachedChar segment = Num 0 \<longrightarrow>
            rest_of_text = stringToArrayBuffer (responseText request)"
    by (simp add: assms(4))
  from 1 2 3 4 5 6 7 8 9 10 11 12 show ?thesis by (intro conjI)
qed

lemma handleProgress_defers_parsing_example:
  "filter (is_dispatch True) (p_trace (run example_parser [InitSegmentRequest, SegmentRequest]
      (start pending_segment example_decrypter)
      [(1, Progress example_progress), (2, Progress example_progress),
       (3, SegmentResponse False example_request),
       (4, InitSegmentResponse False init_response)])) = []"
  "filter (is_dispatch False) (p_trace (run example_parser [InitSegmentRequest, SegmentRequest]
      (start pending_segment example_decrypter)
      [(1, Progress example_progress), (2, Progress example_progress),
       (3, SegmentResponse False example_request),
       (4, InitSegmentResponse False init_response)])) =
     [CallInspectMp4 (Some (Uint8Array [1, 2, 3])) True]"
  "lastReachedChar (p_segment (run example_parser [InitSegmentRequest, SegmentRequest]
      (start pending_segment example_decrypter)
      [(1, Progress example_progress), (2, Progress example_progress),
       (3, SegmentResponse False example_request),
       (4, InitSegmentResponse False init_response)])) = Num 0"
  by (simp_all add: run_def step_def finish_def start_def waitForCompletion_def
        handleProgress_def handleSegmentResponse_def handleInitSegmentResponse_def
        byteLength_of_text_def handleErrors_def handleDecryptedBytes_def parseMp4AndNotify_def
        example_parser_def pending_segment_def example_segment_def example_map_def
        example_progress_def example_request_def example_decrypter_def
        init_response_def key_response_def
        stringToArrayBuffer_def Uint8Array_def contents_def
        getProgressStats_def mergeStats_def getRequestStats_def double_defs)

section \<open>The progress handler of the second copy\<close>

text \<open>
  The unnamed copy of the handler agrees with the module on a descriptor with a key and
  on one without an init segment or with a fetched one. On a descriptor without a key
  whose init segment is still pending it calls its dispatcher with \<^verbatim>\<open>isPartial: true\<close>,
  takes over the descriptor as the dispatcher leaves it, and adds the count that the
  dispatcher reports to \<^verbatim>\<open>lastReachedChar\<close>.
\<close>

lemma handleProgress_copy_agrees:
  assumes "key segment \<noteq> None \<or> map_info segment = None \<or>
           (\<exists>m b. map_info segment = Some m \<and> map_bytes m = Some b)"
  shows "handleProgress_copy (handleDecryptedBytes P) now segment event =
           handleProgress P now segment event"
  using assms
  by (auto simp add: handleProgress_copy_def handleProgress_def)

lemma handleProgress_copy_pending_init:
  assumes "key segment = None" and "map_info segment = Some m" and "map_bytes m = None"
    and "D segment (Some (Uint8Array (stringToArrayBuffer
           (substring (responseText (target event)) (or0 (lastReachedChar segment))))))
           True False = (n, s', acts)"
  shows "\<exists>st. handleProgress_copy D now segment event =
           (s'\<lparr>lastReachedChar := js_add (lastReachedChar s') (Num n), stats := Some st\<rparr>,
            acts @ [ProgressFn event
              (s'\<lparr>lastReachedChar := js_add (lastReachedChar s') (Num n), stats := Some st\<rparr>)])"
  unfolding handleProgress_copy_def Let_def if_P [OF assms(1)] assms(4)
  by (simp del: split_paired_Ex) blast

text \<open>
  Claim C3. For every progress event on the media-segment request, the progress handler
  never invokes the parse dispatcher when the segment has a key, and never invokes it
  when the segment has an init segment whose bytes have not been fetched yet; in those
  cases the cursor \<^verbatim>\<open>lastReachedChar\<close> and the parser state are left unchanged by the
  event, and the final media-segment completion still processes the complete byte range
  from the cursor onward. The handler of the module does so
  (\<open>handleProgress_defers_parsing\<close>). The handler of the second copy does not: it tests
  \<^verbatim>\<open>!segment.key\<close> alone, under its own comment ``don't support encrypted segments or
  fmp4 for now''. On the descriptor \<open>pending_segment\<close>, which has no key and an init
  segment that is not fetched, and a progress event that shows nine characters, it calls
  its dispatcher \<open>D\<close> on the nine bytes with \<^verbatim>\<open>isPartial: true\<close> and no \<^verbatim>\<open>doneFn\<close>, and
  the descriptor and the cursor become what that call makes of them. With a dispatcher
  that parses as the module's does over the example parser, which consumes the one
  complete unit of eight bytes, the cursor moves from 0 to 8 and the parser state is
  written; the handler of the module leaves both as they are on the same input.
\<close>

theorem handleProgress_copy_parses_pending_init:
  "key pending_segment = None \<and>
   map_info pending_segment = Some example_map \<and> map_bytes example_map = None \<and>
   lastReachedChar pending_segment = Num 0 \<and> boxes pending_segment = None \<and>
   (\<exists>st. handleProgress_copy D 5 pending_segment progress9 =
      (case D pending_segment (Some (Uint8Array [1, 2, 3, 4, 5, 6, 7, 8, 9])) True False of
         (n, s', acts) \<Rightarrow>
           (s'\<lparr>lastReachedChar := js_add (lastReachedChar s') (Num n), stats := Some st\<rparr>,
            acts @ [ProgressFn progress9
              (s'\<lparr>lastReachedChar := js_add (lastReachedChar s') (Num n),
                  stats := Some st\<rparr>)]))) \<and>
   filter (is_dispatch True)
     (snd (handleProgress_copy (handleDecryptedBytes example_parser) 5 pending_segment progress9)) =
     [CallInspectMp4 (Some (Uint8Array [1, 2, 3, 4, 5, 6, 7, 8, 9])) False] \<and>
   lastReachedChar
     (fst (handleProgress_copy (handleDecryptedBytes example_parser) 5 pending_segment progress9)) =
     Num 8 \<and>
   boxes
     (fst (handleProgress_copy (handleDecryptedBytes example_parser) 5 pending_segment progress9)) =
     Some 8 \<and>
   filter (is_dispatch True) (snd (handleProgress example_parser 5 pending_segment progress9)) =
     [] \<and>
   lastReachedChar (fst (handleProgress example_parser 5 pending_segment progress9)) = Num 0 \<and>
   boxes (fst (handleProgress example_parser 5 pending_segment progress9)) = None"
proof -
  have p: "key pending_segment = None" "map_info pending_segment = Some example_map"
    "map_bytes example_map = None" "lastReachedChar pending_segment = Num 0"
    "boxes pending_segment = None"
    by (simp_all add: pending_segment_def example_segment_def example_map_def)
  let ?b = "Uint8Array [1, 2, 3, 4, 5, 6, 7, 8, 9]"
  have b: "Uint8Array (stringToArrayBuffer
             (substring (responseText (target progress9)) (or0 (lastReachedChar pending_segment)))) =
           ?b"
    by (simp add: p progress9_def example_request_def stringToArrayBuffer_def)
  have 1: "\<exists>st. handleProgress_copy D 5 pending_segment progress9 =
      (case D pending_segment (Some ?b) True False of
         (n, s', acts) \<Rightarrow>
           (s'\<lparr>lastReachedChar := js_add (lastReachedChar s') (Num n), stats := Some st\<rparr>,
            acts @ [ProgressFn progress9
              (s'\<lparr>lastReachedChar := js_add (lastReachedChar s') (Num n),
                  stats := Some st\<rparr>)]))"
  proof (cases "D pending_segment (Some ?b) True False" rule: prod_cases3)
    case (fields n s' acts)
    then have d: "D pending_segment (Some (Uint8Array (stringToArrayBuffer
           (substring (responseText (target progress9)) (or0 (lastReachedChar pending_segment))))))
           True False = (n, s', acts)"
      unfolding b .
    from handleProgress_copy_pending_init
      [where D = D and segment = pending_segment and event = progress9 and now = 5,
       OF p(1) p(2) p(3) d]
    show ?thesis
      unfolding fields by simp
  qed
  have d: "handleDecryptedBytes example_parser pending_segment (Some ?b) True False =
             (8, pending_segment\<lparr>boxes := Some 8\<rparr>,
              [CallInspectMp4 (Some ?b) False,
               DataFn pending_segment (Mp4Chunk [1, 2, 3, 4, 5, 6, 7, 8])])"
    by (simp add: handleDecryptedBytes_def parseMp4AndNotify_def example_parser_def p
          Uint8Array_def contents_def Let_def)
  have d': "handleDecryptedBytes example_parser pending_segment (Some (Uint8Array (stringToArrayBuffer
           (substring (responseText (target progress9)) (or0 (lastReachedChar pending_segment))))))
           True False =
             (8, pending_segment\<lparr>boxes := Some 8\<rparr>,
              [CallInspectMp4 (Some ?b) False,
               DataFn pending_segment (Mp4Chunk [1, 2, 3, 4, 5, 6, 7, 8])])"
    unfolding b by (rule d)
  from handleProgress_copy_pending_init
    [where D = "handleDecryptedBytes example_parser" and segment = pending_segment
       and event = progress9 and now = 5, OF p(1) p(2) p(3) d']
  obtain st where
    c: "handleProgress_copy (handleDecryptedBytes example_parser) 5 pending_segment progress9 =
          (pending_segment\<lparr>boxes := Some 8, lastReachedChar := Num 8, stats := Some st\<rparr>,
           [CallInspectMp4 (Some ?b) False,
            DataFn pending_segment (Mp4Chunk [1, 2, 3, 4, 5, 6, 7, 8]),
            ProgressFn progress9
              (pending_segment\<lparr>boxes := Some 8, lastReachedChar := Num 8, stats := Some st\<rparr>)])"
    by (auto simp add: p)
  have sk: "key pending_segment \<noteq> None \<or>
            (\<exists>m. map_info pending_segment = Some m \<and> map_bytes m = None)"
    by (simp add: p)
  from handleProgress_skip [OF sk, of example_parser 5 progress9] obtain st' where
    m: "handleProgress example_parser 5 pending_segment progress9 =
          (pending_segment\<lparr>stats := Some st'\<rparr>,
           [ProgressFn progress9 (pending_segment\<lparr>stats := Some st'\<rparr>)])"
    by blast
  have 2: "filter (is_dispatch True)
     (snd (handleProgress_copy (handleDecryptedBytes example_parser) 5 pending_segment progress9)) =
     [CallInspectMp4 (Some ?b) False]"
    and 3: "lastReachedChar
     (fst (handleProgress_copy (handleDecryptedBytes example_parser) 5 pending_segment progress9)) =
     Num 8"
    and 4: "boxes
     (fst (handleProgress_copy (handleDecryptedBytes example_parser) 5 pending_segment progress9)) =
     Some 8"
    by (simp_all add: c)
  have 5: "filter (is_dispatch True)
             (snd (handleProgress example_parser 5 pending_segment progress9)) = []"
    and 6: "lastReachedChar (fst (handleProgress example_parser 5 pending_segment progress9)) = Num 0"
    and 7: "boxes (fst (handleProgress example_parser 5 pending_segment progress9)) = None"
    by (simp_all add: m p)
  from p 1 2 3 4 5 6 7 show ?thesis by (intro conjI)
qed

section \<open>The cursor\<close>

lemma decryptSegment_cursor:
  "lastReachedChar (fst (snd (decryptSegment d segment))) = lastReachedChar segment"
  by (auto simp add: decryptSegment_def Let_def split: option.splits prod.splits)

lemma handleDecryptedBytes_cursor:
  "lastReachedChar (fst (snd (handleDecryptedBytes P segment b isPartial doneFn))) =
     lastReachedChar segment"
  by (auto simp add: handleDecryptedBytes_def parseMp4AndNotify_def Let_def split: option.splits)

lemma waitForCompletion_cursor:
  "lastReachedChar (fst (snd (snd (waitForCompletion P xs now (tr, d) error segment)))) =
     lastReachedChar segment"
proof -
  let ?errs = "case error of None \<Rightarrow> errors tr | Some e \<Rightarrow> errors tr @ [e]"
  let ?seg = "segment\<lparr>endOfAllRequests := Some now\<rparr>"
  consider (other) "count tr + 1 \<noteq> length xs"
    | (err) "count tr + 1 = length xs" "?errs \<noteq> []"
    | (dec) "count tr + 1 = length xs" "?errs = []" "encryptedBytes segment \<noteq> None"
    | (parse) "count tr + 1 = length xs" "?errs = []" "encryptedBytes segment = None"
    by blast
  then show ?thesis
  proof cases
    case other
    from waitForCompletion_not_last [OF other, of P now d error segment]
    show ?thesis by simp
  next
    case err
    from waitForCompletion_last_error [OF err(1) refl err(2), of P now d segment]
    show ?thesis by auto
  next
    case dec
    then have e: "error = None" "errors tr = []" by (auto split: option.splits)
    obtain d' s' acts where D: "decryptSegment d ?seg = (d', s', acts)"
      using prod_cases3 by blast
    from decryptSegment_cursor [of d ?seg] have "lastReachedChar s' = lastReachedChar segment"
      by (simp add: D)
    with waitForCompletion_last_decrypt [OF dec(1) e dec(3) D, of P]
    show ?thesis by simp
  next
    case parse
    then have e: "error = None" "errors tr = []" by (auto split: option.splits)
    obtain n s' acts where H:
      "handleDecryptedBytes P ?seg (bytes segment) False True = (n, s', acts)"
      using prod_cases3 by blast
    from handleDecryptedBytes_cursor [of P ?seg "bytes segment" False True]
    have "lastReachedChar s' = lastReachedChar segment" by (simp add: H)
    with waitForCompletion_last_parse [OF parse(1) e parse(3) H, of d]
    show ?thesis by simp
  qed
qed

lemma handlers_cursor:
  "handleKeyResponse segment error request = Inr (e, s') \<Longrightarrow>
     lastReachedChar s' = lastReachedChar segment"
  "handleInitSegmentResponse segment error request = Inr (e, s') \<Longrightarrow>
     lastReachedChar s' = lastReachedChar segment"
  "handleSegmentResponse segment error request = (e, s') \<Longrightarrow>
     lastReachedChar s' = lastReachedChar segment"
  by (auto simp add: handleKeyResponse_def handleInitSegmentResponse_def
        handleSegmentResponse_def Let_def
        split: if_splits option.splits sum.splits prod.splits)

lemma finish_cursor:
  assumes "\<And>e s'. r = Inr (e, s') \<Longrightarrow> lastReachedChar s' = lastReachedChar (p_segment s)"
  shows "lastReachedChar (p_segment (finish P xs now s r)) = lastReachedChar (p_segment s)"
proof (cases r)
  case (Inl ex)
  then show ?thesis by (simp add: finish_def)
next
  case (Inr p)
  obtain e s' where p: "p = (e, s')" by (cases p)
  obtain tr d s2 acts where w:
    "waitForCompletion P xs now (p_tracker s, p_decrypter s) e s' = (tr, d, s2, acts)"
    using prod_cases4 by blast
  from waitForCompletion_cursor [of P xs now "p_tracker s" "p_decrypter s" e s']
  have "lastReachedChar s2 = lastReachedChar s'" by (simp add: w)
  with assms [of e s'] show ?thesis by (simp add: finish_def Inr p w)
qed

lemma decryptionHandler_cursor:
  "lastReachedChar (fst (snd (decryptionHandler P d segment event))) = lastReachedChar segment"
proof -
  let ?view = "\<lparr>buffer = decrypted_bytes event, u8_byteOffset = byteOffset event,
                  u8_length = byteLength event\<rparr>"
  obtain n s' acts where H:
    "handleDecryptedBytes P (segment\<lparr>bytes := Some ?view\<rparr>) (Some ?view) False True =
       (n, s', acts)"
    using prod_cases3 by blast
  from handleDecryptedBytes_cursor [of P "segment\<lparr>bytes := Some ?view\<rparr>" "Some ?view" False True]
  have c: "lastReachedChar s' = lastReachedChar segment" by (simp add: H)
  consider (other) "source event \<noteq> requestId segment"
    | (bad) "source event = requestId segment"
        "\<not> byteOffset event + byteLength event \<le> length (decrypted_bytes event)"
    | (good) "source event = requestId segment"
        "byteOffset event + byteLength event \<le> length (decrypted_bytes event)"
    by blast
  then show ?thesis
  proof cases
    case other
    then show ?thesis by (simp add: decryptionHandler_other)
  next
    case bad
    then show ?thesis by (simp add: decryptionHandler_range_error)
  next
    case good
    from decryptionHandler_match [OF good refl H, of d] c show ?thesis by simp
  qed
qed

lemma step_cursor_other:
  assumes "\<And>pe. ev \<noteq> Progress pe"
  shows "lastReachedChar (p_segment (step P xs s (t, ev))) = lastReachedChar (p_segment s)"
proof (cases ev)
  case (KeyResponse error request)
  show ?thesis
    unfolding KeyResponse step_def
    by (simp add: finish_cursor handlers_cursor(1))
next
  case (InitSegmentResponse error request)
  show ?thesis
    unfolding InitSegmentResponse step_def
    by (simp add: finish_cursor handlers_cursor(2))
next
  case (SegmentResponse error request)
  have "lastReachedChar (p_segment (finish P xs t s
          (Inr (handleSegmentResponse (p_segment s) error request)))) =
        lastReachedChar (p_segment s)"
  proof (rule finish_cursor)
    fix e s'
    assume "Inr (handleSegmentResponse (p_segment s) error request) = Inr (e, s')"
    then show "lastReachedChar s' = lastReachedChar (p_segment s)"
      by (simp add: handlers_cursor(3))
  qed
  then show ?thesis unfolding SegmentResponse step_def by simp
next
  case (Progress pe)
  with assms [of pe] show ?thesis by blast
next
  case (WorkerMessage reply)
  obtain d s' acts where D:
    "decryptionHandler P (p_decrypter s) (p_segment s) reply = (d, s', acts)"
    using prod_cases3 by blast
  from decryptionHandler_cursor [of P "p_decrypter s" "p_segment s" reply]
  have "lastReachedChar s' = lastReachedChar (p_segment s)" by (simp add: D)
  then show ?thesis unfolding WorkerMessage step_def by (simp add: D)
qed

lemma handleDecryptedBytes_count:
  assumes "\<forall>a e bx. 0 \<le> numUsedBytes (P (Some a) e bx) \<and>
                   numUsedBytes (P (Some a) e bx) \<le> int (u8_length a)"
  shows "0 \<le> fst (handleDecryptedBytes P segment (Some a) isPartial doneFn)"
    and "fst (handleDecryptedBytes P segment (Some a) isPartial doneFn) \<le> int (u8_length a)"
  using assms
  by (simp_all add: handleDecryptedBytes_def parseMp4AndNotify_def Let_def)

lemma progressBytes_length:
  assumes "lastReachedChar segment = Num c" and "0 \<le> c"
  shows "u8_length (progressBytes segment event) =
           length (responseText (target event)) - nat c"
  using assms by (simp add: progressBytes_def Uint8Array_def stringToArrayBuffer_def)

lemma handleProgress_cursor:
  "dispatchesProgress segment \<Longrightarrow>
     lastReachedChar (fst (handleProgress P now segment event)) =
       js_add (lastReachedChar segment)
         (Num (fst (handleDecryptedBytes P segment (Some (progressBytes segment event)) True False)))"
  "\<not> dispatchesProgress segment \<Longrightarrow>
     lastReachedChar (fst (handleProgress P now segment event)) = lastReachedChar segment"
proof -
  obtain n s' acts where H: "handleDecryptedBytes P segment
           (Some (Uint8Array (stringToArrayBuffer
              (substring (responseText (target event)) (or0 (lastReachedChar segment))))))
           True False = (n, s', acts)"
    using prod_cases3 by blast
  from handleDecryptedBytes_cursor [of P segment "Some (Uint8Array (stringToArrayBuffer
      (substring (responseText (target event)) (or0 (lastReachedChar segment)))))" True False]
  have c: "lastReachedChar s' = lastReachedChar segment"
    by (simp add: H)
  {
    assume "dispatchesProgress segment"
    then have g: "key segment = None"
      "map_info segment = None \<or> (\<exists>m b. map_info segment = Some m \<and> map_bytes m = Some b)"
      by (auto simp add: dispatchesProgress_def split: option.splits)
    from handleProgress_dispatch [OF g H, of now] c H
    show "lastReachedChar (fst (handleProgress P now segment event)) =
       js_add (lastReachedChar segment)
         (Num (fst (handleDecryptedBytes P segment (Some (progressBytes segment event)) True False)))"
      by (auto simp add: progressBytes_def)
  }
  {
    assume "\<not> dispatchesProgress segment"
    then have "key segment \<noteq> None \<or> (\<exists>m. map_info segment = Some m \<and> map_bytes m = None)"
      by (auto simp add: dispatchesProgress_def split: option.splits)
    from handleProgress_skip [OF this, of P now event]
    show "lastReachedChar (fst (handleProgress P now segment event)) = lastReachedChar segment"
      by auto
  }
qed

lemma step_progress_cursor:
  "lastReachedChar (p_segment (step P xs s (t, Progress pe))) =
     lastReachedChar (fst (handleProgress P t (p_segment s) pe))"
  by (simp add: step_def split: prod.splits)


lemma run_Cons: "run P xs s (e # evs) = run P xs (step P xs s e) evs"
  by (simp add: run_def)

lemma run_cursor:
  assumes "\<forall>a e bx. 0 \<le> numUsedBytes (P (Some a) e bx) \<and>
                   numUsedBytes (P (Some a) e bx) \<le> int (u8_length a)"
    and "lastReachedChar (p_segment s) = Num c" and "0 \<le> c"
  shows "lastReachedChar (p_segment (run P xs s evs)) =
           Num (c + sum_list (map snd (partialCalls P xs s evs))) \<and>
         (\<forall>x\<in>set (partialCalls P xs s evs). 0 \<le> snd x \<and> snd x \<le> int (fst x)) \<and>
         c + sum_list (map snd (partialCalls P xs s evs)) \<le> max c (int (longestText evs))"
  using assms(2,3)
proof (induction evs arbitrary: s c)
  case Nil
  then show ?case by (simp add: run_def)
next
  case (Cons e evs)
  obtain t ev where e: "e = (t, ev)" by (cases e)
  let ?s1 = "step P xs s (t, ev)"
  have r: "run P xs s (e # evs) = run P xs ?s1 evs" by (simp add: run_Cons e)
  show ?case
  proof (cases "\<exists>pe. ev = Progress pe")
    case False
    then have np: "\<And>pe. ev \<noteq> Progress pe" by blast
    have c1: "lastReachedChar (p_segment ?s1) = Num c"
      using step_cursor_other [OF np, of P xs s t] Cons.prems(1) by simp
    have pc: "partialCalls P xs s (e # evs) = partialCalls P xs ?s1 evs"
      using False by (cases ev) (auto simp add: e)
    have lt: "longestText (e # evs) = longestText evs"
      using False by (cases ev) (auto simp add: e)
    from Cons.IH [OF c1 Cons.prems(2)] show ?thesis unfolding r pc lt .
  next
    case True
    then obtain pe where ev: "ev = Progress pe" by blast
    have lt: "longestText (e # evs) =
                max (length (responseText (target pe))) (longestText evs)"
      by (simp add: e ev)
    show ?thesis
    proof (cases "dispatchesProgress (p_segment s)")
      case False
      have c1: "lastReachedChar (p_segment ?s1) = Num c"
        unfolding ev step_progress_cursor handleProgress_cursor(2) [OF False]
        by (rule Cons.prems(1))
      have pc: "partialCalls P xs s (e # evs) = partialCalls P xs ?s1 evs"
        using False by (simp add: e ev)
      from Cons.IH [OF c1 Cons.prems(2)] show ?thesis unfolding r pc lt by auto
    next
      case True
      let ?b = "progressBytes (p_segment s) pe"
      let ?n = "fst (handleDecryptedBytes P (p_segment s) (Some ?b) True False)"
      have n0: "0 \<le> ?n" and n1: "?n \<le> int (u8_length ?b)"
        by (rule handleDecryptedBytes_count [OF assms(1)])+
      have len: "u8_length ?b = length (responseText (target pe)) - nat c"
        by (rule progressBytes_length [OF Cons.prems])
      have c1: "lastReachedChar (p_segment ?s1) = Num (c + ?n)"
        unfolding ev step_progress_cursor handleProgress_cursor(1) [OF True]
        by (simp add: Cons.prems(1))
      have pc: "partialCalls P xs s (e # evs) =
                  (u8_length ?b, ?n) # partialCalls P xs ?s1 evs"
        using True by (simp add: e ev)
      have c2: "0 \<le> c + ?n" using n0 Cons.prems(2) by simp
      have b: "c + ?n \<le> max c (int (length (responseText (target pe))))"
        using n1 len Cons.prems(2) by linarith
      from Cons.IH [OF c1 c2]
      have ih1: "lastReachedChar (p_segment (run P xs ?s1 evs)) =
                   Num (c + ?n + sum_list (map snd (partialCalls P xs ?s1 evs)))"
        and ih2: "\<forall>x\<in>set (partialCalls P xs ?s1 evs). 0 \<le> snd x \<and> snd x \<le> int (fst x)"
        and ih3: "c + ?n + sum_list (map snd (partialCalls P xs ?s1 evs)) \<le>
                    max (c + ?n) (int (longestText evs))"
        by simp_all
      have g1: "lastReachedChar (p_segment (run P xs s (e # evs))) =
           Num (c + sum_list (map snd (partialCalls P xs s (e # evs))))"
        unfolding r pc using ih1 by (simp add: add.assoc)
      have g2: "\<forall>x\<in>set (partialCalls P xs s (e # evs)). 0 \<le> snd x \<and> snd x \<le> int (fst x)"
        unfolding pc using ih2 n0 n1 by simp
      have g3: "c + sum_list (map snd (partialCalls P xs s (e # evs))) \<le>
                  max c (int (longestText (e # evs)))"
        unfolding pc lt using ih3 b by simp
      from g1 g2 g3 show ?thesis by (intro conjI)
    qed
  qed
qed

lemma sum_consumed_bounds:
  assumes "\<forall>x\<in>set l. 0 \<le> snd x \<and> snd x \<le> int (fst x)"
  shows "0 \<le> sum_list (map snd l)" and "sum_list (map snd l) \<le> int (sum_list (map fst l))"
  using assms by (induction l) auto

text \<open>
  Claim C4. Let the box parser keep its contract: it reports a number of used bytes
  between 0 and the length of the buffer it was given. On a descriptor whose cursor
  starts at 0, over every sequence of events of one invocation (progress events, and
  the responses and worker replies that may come between them): each progress event
  that dispatches leaves the cursor at the old cursor plus the count the dispatcher
  reports for that call, every other event leaves the cursor as it is; along the run
  the cursor never decreases; after the run it is the sum of the reported counts, each
  of which is at most the bytes supplied to its call, and the sum exceeds neither the
  bytes supplied in all nor the longest response text seen. The media-segment response
  that completes then takes the text from exactly that cursor onward, and with the
  count that the final dispatch of these bytes reports the total stays within the
  longest text, the complete response included.
\<close>

theorem cursor_advances_by_consumed:
  assumes "\<forall>a e bx. 0 \<le> numUsedBytes (P (Some a) e bx) \<and>
                   numUsedBytes (P (Some a) e bx) \<le> int (u8_length a)"
    and "lastReachedChar (p_segment s) = Num 0"
    and "s' = run P xs s evs"
    and "calls = partialCalls P xs s evs"
    and "final = snd (handleSegmentResponse (p_segment s') error request)"
  shows "(dispatchesProgress segment \<longrightarrow>
            lastReachedChar (fst (handleProgress P now segment event)) =
              js_add (lastReachedChar segment)
                (Num (fst (handleDecryptedBytes P segment
                        (Some (progressBytes segment event)) True False)))) \<and>
         (\<not> dispatchesProgress segment \<longrightarrow>
            lastReachedChar (fst (handleProgress P now segment event)) =
              lastReachedChar segment) \<and>
         (\<forall>k\<le>length evs. \<forall>j\<le>k. \<exists>cj ck.
            lastReachedChar (p_segment (run P xs s (take j evs))) = Num cj \<and>
            lastReachedChar (p_segment (run P xs s (take k evs))) = Num ck \<and>
            0 \<le> cj \<and> cj \<le> ck) \<and>
         lastReachedChar (p_segment s') = Num (sum_list (map snd calls)) \<and>
         (\<forall>x\<in>set calls. 0 \<le> snd x \<and> snd x \<le> int (fst x)) \<and>
         sum_list (map snd calls) \<le> int (sum_list (map fst calls)) \<and>
         sum_list (map snd calls) \<le> int (longestText evs) \<and>
         (handleErrors error request = None \<longrightarrow>
            (if key (p_segment s') = None then bytes final else encryptedBytes final) =
              Some (Uint8Array (stringToArrayBuffer
                (drop (nat (sum_list (map snd calls))) (responseText request)))) \<and>
            (key (p_segment s') = None \<longrightarrow>
               (\<forall>sg. 0 \<le> fst (handleDecryptedBytes P sg (bytes final) False True) \<and>
                     sum_list (map snd calls) +
                       fst (handleDecryptedBytes P sg (bytes final) False True) \<le>
                     int (max (longestText evs) (length (responseText request))))))"
proof -
  have z: "(0 :: int) \<le> 0" by simp
  note rc = run_cursor [OF assms(1)]
  from rc [OF assms(2) z, of xs evs]
  have cur: "lastReachedChar (p_segment s') = Num (sum_list (map snd calls))"
    and each: "\<forall>x\<in>set calls. 0 \<le> snd x \<and> snd x \<le> int (fst x)"
    and lng: "sum_list (map snd calls) \<le> int (longestText evs)"
    unfolding assms(3) assms(4) by simp_all
  note sb = sum_consumed_bounds [OF each]
  have 1: "dispatchesProgress segment \<longrightarrow>
            lastReachedChar (fst (handleProgress P now segment event)) =
              js_add (lastReachedChar segment)
                (Num (fst (handleDecryptedBytes P segment
                        (Some (progressBytes segment event)) True False)))"
    by (simp add: handleProgress_cursor(1))
  have 2: "\<not> dispatchesProgress segment \<longrightarrow>
            lastReachedChar (fst (handleProgress P now segment event)) =
              lastReachedChar segment"
    by (simp add: handleProgress_cursor(2))
  have 3: "\<forall>k\<le>length evs. \<forall>j\<le>k. \<exists>cj ck.
            lastReachedChar (p_segment (run P xs s (take j evs))) = Num cj \<and>
            lastReachedChar (p_segment (run P xs s (take k evs))) = Num ck \<and>
            0 \<le> cj \<and> cj \<le> ck"
  proof (intro allI impI)
    fix k j assume k: "k \<le> length evs" and j: "j \<le> k"
    let ?sj = "run P xs s (take j evs)"
    let ?cj = "sum_list (map snd (partialCalls P xs s (take j evs)))"
    let ?m = "drop j (take k evs)"
    let ?d = "sum_list (map snd (partialCalls P xs ?sj ?m))"
    from rc [OF assms(2) z, of xs "take j evs"]
    have cj: "lastReachedChar (p_segment ?sj) = Num ?cj"
      and ej: "\<forall>x\<in>set (partialCalls P xs s (take j evs)). 0 \<le> snd x \<and> snd x \<le> int (fst x)"
      by simp_all
    have cj0: "0 \<le> ?cj" by (rule sum_consumed_bounds(1) [OF ej])
    from rc [OF cj cj0, of xs ?m]
    have ck: "lastReachedChar (p_segment (run P xs ?sj ?m)) = Num (?cj + ?d)"
      and ek: "\<forall>x\<in>set (partialCalls P xs ?sj ?m). 0 \<le> snd x \<and> snd x \<le> int (fst x)"
      by simp_all
    have d0: "0 \<le> ?d" by (rule sum_consumed_bounds(1) [OF ek])
    have "take j (take k evs) = take j evs" using j by (simp add: min_def)
    then have "take j evs @ ?m = take j (take k evs) @ drop j (take k evs)" by simp
    also have "\<dots> = take k evs" by (rule append_take_drop_id)
    finally have tk: "take j evs @ ?m = take k evs" .
    have "run P xs s (take j evs @ ?m) = run P xs ?sj ?m" by (rule run_append)
    then have "run P xs s (take k evs) = run P xs ?sj ?m"
      unfolding tk .
    with ck have "lastReachedChar (p_segment (run P xs s (take k evs))) = Num (?cj + ?d)"
      by simp
    with cj cj0 d0 show "\<exists>cj ck.
            lastReachedChar (p_segment (run P xs s (take j evs))) = Num cj \<and>
            lastReachedChar (p_segment (run P xs s (take k evs))) = Num ck \<and>
            0 \<le> cj \<and> cj \<le> ck"
      by (intro exI [of _ ?cj] exI [of _ "?cj + ?d"]) simp
  qed
  have 8: "handleErrors error request = None \<longrightarrow>
            (if key (p_segment s') = None then bytes final else encryptedBytes final) =
              Some (Uint8Array (stringToArrayBuffer
                (drop (nat (sum_list (map snd calls))) (responseText request)))) \<and>
            (key (p_segment s') = None \<longrightarrow>
               (\<forall>sg. 0 \<le> fst (handleDecryptedBytes P sg (bytes final) False True) \<and>
                     sum_list (map snd calls) +
                       fst (handleDecryptedBytes P sg (bytes final) False True) \<le>
                     int (max (longestText evs) (length (responseText request)))))"
  proof (intro impI conjI allI)
    assume ok: "handleErrors error request = None"
    let ?t = "sum_list (map snd calls)"
    let ?b = "Uint8Array (stringToArrayBuffer (drop (nat ?t) (responseText request)))"
    show f: "(if key (p_segment s') = None then bytes final else encryptedBytes final) = Some ?b"
      using ok by (simp add: assms(5) handleSegmentResponse_def byteLength_of_text_def Let_def cur)
    {
      fix sg
      assume k: "key (p_segment s') = None"
      with f have bf: "bytes final = Some ?b" by simp
      have len: "u8_length ?b = length (responseText request) - nat ?t"
        by (simp add: Uint8Array_def stringToArrayBuffer_def)
      from handleDecryptedBytes_count [OF assms(1), of sg ?b False True]
      have f0: "0 \<le> fst (handleDecryptedBytes P sg (bytes final) False True)"
        and f1: "fst (handleDecryptedBytes P sg (bytes final) False True) \<le> int (u8_length ?b)"
        unfolding bf by simp_all
      show "0 \<le> fst (handleDecryptedBytes P sg (bytes final) False True)" by (rule f0)
      show "?t + fst (handleDecryptedBytes P sg (bytes final) False True) \<le>
              int (max (longestText evs) (length (responseText request)))"
        using f1 len lng sb(1) by linarith
    }
  qed
  from 1 2 3 cur each sb(2) lng 8 show ?thesis by (intro conjI)
qed

theorem cursor_advances_by_consumed_witness:
  "partialCalls example_parser [SegmentRequest] (start fetched_segment example_decrypter)
     [(1, Progress progress9)] = [(9, 8)] \<and>
   lastReachedChar (p_segment (run example_parser [SegmentRequest]
     (start fetched_segment example_decrypter) [(1, Progress progress9)])) = Num 8 \<and>
   bytes (snd (handleSegmentResponse (p_segment (run example_parser [SegmentRequest]
     (start fetched_segment example_decrypter) [(1, Progress progress9)])) False response10)) =
     Some (Uint8Array [9, 10])"
proof -
  let ?s = "start fetched_segment example_decrypter"
  let ?evs = "[(1 :: int, Progress progress9)]"
  have h1: "\<forall>a e bx. 0 \<le> numUsedBytes (example_parser (Some a) e bx) \<and>
      numUsedBytes (example_parser (Some a) e bx) \<le> int (u8_length a)"
    by (simp add: example_parser_def Let_def)
  have h2: "lastReachedChar (p_segment ?s) = Num 0"
    by (simp add: start_def fetched_segment_def example_segment_def)
  note th = cursor_advances_by_consumed [OF h1 h2 refl refl refl,
    where xs = "[SegmentRequest]" and evs = ?evs and error = False and request = response10]
  have ds: "dispatchesProgress (p_segment ?s)"
    by (simp add: dispatchesProgress_def start_def fetched_segment_def example_segment_def
          example_map_def)
  have pb: "progressBytes (p_segment ?s) progress9 = Uint8Array [1, 2, 3, 4, 5, 6, 7, 8, 9]"
    by (simp add: progressBytes_def start_def fetched_segment_def example_segment_def
          progress9_def example_request_def stringToArrayBuffer_def)
  have n: "fst (handleDecryptedBytes example_parser (p_segment ?s)
             (Some (Uint8Array [1, 2, 3, 4, 5, 6, 7, 8, 9])) True False) = 8"
    by (simp add: handleDecryptedBytes_def parseMp4AndNotify_def example_parser_def Let_def
          start_def fetched_segment_def example_segment_def Uint8Array_def)
  have pc: "partialCalls example_parser [SegmentRequest] ?s ?evs = [(9, 8)]"
    by (simp add: ds pb n) (simp add: Uint8Array_def)
  have sm: "sum_list (map snd (partialCalls example_parser [SegmentRequest] ?s ?evs)) = 8"
    unfolding pc by simp
  have 2: "lastReachedChar (p_segment (run example_parser [SegmentRequest] ?s ?evs)) = Num 8"
    using th [THEN conjunct2, THEN conjunct2, THEN conjunct2, THEN conjunct1]
    unfolding sm .
  have k: "key (p_segment (run example_parser [SegmentRequest] ?s ?evs)) = None"
    by (simp add: run_def step_def start_def fetched_segment_def example_segment_def
          handleProgress_def handleDecryptedBytes_def parseMp4AndNotify_def Let_def
          split: prod.splits)
  have ok: "handleErrors False response10 = None"
    by (simp add: handleErrors_def response10_def example_request_def)
  have dr: "stringToArrayBuffer (drop (nat 8) (responseText response10)) = [9, 10]"
    by (simp add: stringToArrayBuffer_def response10_def)
  have 3: "bytes (snd (handleSegmentResponse (p_segment (run example_parser [SegmentRequest]
     ?s ?evs)) False response10)) = Some (Uint8Array [9, 10])"
    using th [THEN conjunct2, THEN conjunct2, THEN conjunct2, THEN conjunct2, THEN conjunct2,
      THEN conjunct2, THEN conjunct2, THEN mp, OF ok, THEN conjunct1]
    unfolding sm k dr by simp
  from pc 2 3 show ?thesis by (intro conjI)
qed

end
